theory Spec2Isabelle
  imports Main
begin

section \<open>Python string primitives used by the scripting engine\<close>

text \<open>
  Python strings are sequences of code points. They are modelled as \<open>string\<close>, one
  \<open>char\<close> per code point, which covers the code points below 256. The character classes
  below are those of Python's \<^verbatim>\<open>str\<close> methods on that range.
\<close>

definition isspace :: "char \<Rightarrow> bool" where
  \<comment> \<open>\<^verbatim>\<open>str.isspace\<close> on one character: the characters \<^verbatim>\<open>str.split()\<close> and
      \<^verbatim>\<open>str.strip()\<close> treat as whitespace.\<close>
  "isspace c = (c \<in> set [CHR 0x09, CHR 0x0A, CHR 0x0B, CHR 0x0C, CHR 0x0D,
                          CHR 0x1C, CHR 0x1D, CHR 0x1E, CHR 0x1F, CHR 0x20,
                          CHR 0x85, CHR 0xA0])"

definition is_linebreak :: "char \<Rightarrow> bool" where
  \<comment> \<open>The line boundaries of \<^verbatim>\<open>str.splitlines()\<close>; the pair CR LF is handled in
      \<open>splitlines_acc\<close>.\<close>
  "is_linebreak c = (c \<in> set [CHR 0x0A, CHR 0x0B, CHR 0x0C, CHR 0x0D,
                               CHR 0x1C, CHR 0x1D, CHR 0x1E, CHR 0x85])"

definition isdigit_char :: "char \<Rightarrow> bool" where
  \<comment> \<open>Characters with the Unicode property Digit: the ASCII digits and the superscripts
      two, three and one.\<close>
  "isdigit_char c = (c \<in> set ''0123456789'' \<or> c \<in> set [CHR 0xB2, CHR 0xB3, CHR 0xB9])"

definition isdigit :: "string \<Rightarrow> bool" where
  \<comment> \<open>\<^verbatim>\<open>str.isdigit()\<close>: at least one character, all of them digits.\<close>
  "isdigit s = (s \<noteq> [] \<and> list_all isdigit_char s)"

definition strip :: "string \<Rightarrow> string" where
  \<comment> \<open>\<^verbatim>\<open>str.strip()\<close>\<close>
  "strip s = rev (dropWhile isspace (rev (dropWhile isspace s)))"

fun split_acc :: "string \<Rightarrow> string \<Rightarrow> string list" where
  "split_acc cur [] = (if cur = [] then [] else [cur])"
| "split_acc cur (c # cs) =
     (if isspace c then (if cur = [] then split_acc [] cs else cur # split_acc [] cs)
      else split_acc (cur @ [c]) cs)"

definition split_ws :: "string \<Rightarrow> string list" where
  \<comment> \<open>\<^verbatim>\<open>str.split()\<close> without a separator: the maximal runs of non-whitespace.\<close>
  "split_ws s = split_acc [] s"

fun split_on :: "char \<Rightarrow> string \<Rightarrow> string list" where
  \<comment> \<open>\<^verbatim>\<open>str.split(sep)\<close> for a one-character separator: empty fields are kept.\<close>
  "split_on sep [] = [[]]"
| "split_on sep (c # cs) =
     (if c = sep then [] # split_on sep cs
      else (case split_on sep cs of [] \<Rightarrow> [[c]] | w # ws \<Rightarrow> (c # w) # ws))"

fun splitlines_acc :: "string \<Rightarrow> string \<Rightarrow> string list" where
  "splitlines_acc cur [] = (if cur = [] then [] else [cur])"
| "splitlines_acc cur (c # cs) =
     (if is_linebreak c then
        (if c = CHR 0x0D \<and> cs \<noteq> [] \<and> hd cs = CHR 0x0A
         then cur # splitlines_acc [] (tl cs)
         else cur # splitlines_acc [] cs)
      else splitlines_acc (cur @ [c]) cs)"

definition splitlines :: "string \<Rightarrow> string list" where
  \<comment> \<open>\<^verbatim>\<open>str.splitlines()\<close>\<close>
  "splitlines s = splitlines_acc [] s"

definition startswith :: "string \<Rightarrow> string \<Rightarrow> bool" where
  \<comment> \<open>\<^verbatim>\<open>s.startswith(p)\<close>\<close>
  "startswith s p = (take (length p) s = p)"

fun join :: "string \<Rightarrow> string list \<Rightarrow> string" where
  \<comment> \<open>\<^verbatim>\<open>sep.join(xs)\<close>\<close>
  "join sep [] = []"
| "join sep [x] = x"
| "join sep (x # y # ys) = x @ sep @ join sep (y # ys)"

definition is_ascii_digit :: "char \<Rightarrow> bool" where
  "is_ascii_digit c = (c \<in> set ''0123456789'')"

definition digit_val :: "char \<Rightarrow> int" where
  "digit_val c = int (of_char c) - 48"

fun digits_ok :: "string \<Rightarrow> bool" where
  \<comment> \<open>The digit part of an integer literal given to \<^verbatim>\<open>int()\<close>: decimal digits, with
      single underscores allowed between two digits.\<close>
  "digits_ok [] = False"
| "digits_ok [c] = is_ascii_digit c"
| "digits_ok (c # d # cs) =
     (is_ascii_digit c \<and> (if d = CHR ''_'' then digits_ok cs else digits_ok (d # cs)))"

definition digits_value :: "string \<Rightarrow> int" where
  "digits_value s = foldl (\<lambda>a c. 10 * a + digit_val c) 0 (filter (\<lambda>c. c \<noteq> CHR ''_'') s)"

definition py_int :: "string \<Rightarrow> int option" where
  \<comment> \<open>\<^verbatim>\<open>int(s)\<close> for a string: surrounding whitespace is ignored, one sign is allowed;
      \<open>None\<close> stands for the ValueError. The interpreter's limit on the number of digits
      is not part of the model.\<close>
  "py_int s =
     (let t = strip s;
          neg = (t \<noteq> [] \<and> hd t = CHR ''-'');
          body = (if t \<noteq> [] \<and> (hd t = CHR ''-'' \<or> hd t = CHR ''+'') then tl t else t)
      in if digits_ok body
         then Some (if neg then - digits_value body else digits_value body)
         else None)"

section \<open>The command registry\<close>

datatype np_type = np_float32 | np_float64 | np_uint16 | np_uint32 | np_int32 | py_str

datatype pylit = IntLit int | FloatLit string | StrLit string
  \<comment> \<open>A default value as written in the registry; a float literal keeps its source text.\<close>

datatype si_method =
  getXY | getZ | setXY | setZ | addX | addY | addZ | addBias | addCurrent | wait | correctZDrift

datatype func_ref =
    Nanonis string  \<comment> \<open>a method of \<^verbatim>\<open>nanonis_spm.Nanonis\<close>, by name\<close>
  | SI si_method    \<comment> \<open>a method of \<^verbatim>\<open>ScriptingInterface\<close>\<close>
  | Lambda_QuPe_FreqSet  \<comment> \<open>the one-parameter lambda bound to \<^verbatim>\<open>QuPe.FreqSet\<close>\<close>

record arg_info =
  arg_type :: np_type
  arg_default :: pylit
  user :: bool

record cmd_info =
  func :: func_ref
  args :: "(string \<times> arg_info) list"

definition FUNCTION_REGISTRY :: "(string \<times> cmd_info) list" where
  "FUNCTION_REGISTRY = [
   (''bias.Set'', \<lparr>func = Nanonis ''Bias_Set'', args = [
       (''Bias value (V)'', \<lparr>arg_type = np_float32, arg_default = FloatLit ''0.5'', user = True\<rparr>)]\<rparr>),
   (''bias.Get'', \<lparr>func = Nanonis ''Bias_Get'', args = []\<rparr>),
   (''current.Set'', \<lparr>func = Nanonis ''ZCtrl_SetpntSet'', args = [
       (''Z-Controller setpoint'', \<lparr>arg_type = np_float32, arg_default = FloatLit ''100e-12'', user = True\<rparr>)]\<rparr>),
   (''current.Get'', \<lparr>func = Nanonis ''ZCtrl_SetpntGet'', args = []\<rparr>),
   (''fb.Set'', \<lparr>func = Nanonis ''ZCtrl_OnOffSet'', args = [
       (''Z-Controller status'', \<lparr>arg_type = np_uint32, arg_default = IntLit 1, user = True\<rparr>)]\<rparr>),
   (''fb.Get'', \<lparr>func = Nanonis ''ZCtrl_OnOffGet'', args = []\<rparr>),
   (''biasSpec.Start'', \<lparr>func = Nanonis ''BiasSpectr_Start'', args = [
       (''Get data'', \<lparr>arg_type = np_uint32, arg_default = IntLit 0, user = False\<rparr>),
       (''Save base name'', \<lparr>arg_type = py_str, arg_default = StrLit '''', user = False\<rparr>)]\<rparr>),
   (''biasSpec.LimitsGet'', \<lparr>func = Nanonis ''BiasSpectr_LimitsGet'', args = []\<rparr>),
   (''biasSpec.LimitsSet'', \<lparr>func = Nanonis ''BiasSpectr_LimitsSet'', args = [
       (''Start value (V)'', \<lparr>arg_type = np_float32, arg_default = FloatLit ''0.1'', user = True\<rparr>),
       (''End value (V)'', \<lparr>arg_type = np_float32, arg_default = FloatLit ''1.0'', user = True\<rparr>)]\<rparr>),
   (''scan.Start'', \<lparr>func = Nanonis ''Scan_Action'', args = [
       (''Scan action'', \<lparr>arg_type = np_uint16, arg_default = IntLit 0, user = False\<rparr>),
       (''Scan direction'', \<lparr>arg_type = np_uint32, arg_default = IntLit 0, user = False\<rparr>)]\<rparr>),
   (''scan.Wait'', \<lparr>func = Nanonis ''Scan_WaitEndOfScan'', args = [
       (''Timeout (ms)'', \<lparr>arg_type = np_int32, arg_default = IntLit (-1), user = False\<rparr>)]\<rparr>),
   (''lockin.PhaseSet'', \<lparr>func = Nanonis ''LockIn_DemodPhasSet'', args = [
       (''Demodulator number'', \<lparr>arg_type = np_int32, arg_default = IntLit 1, user = False\<rparr>),
       (''Phase (deg)'', \<lparr>arg_type = np_float32, arg_default = FloatLit ''0.0'', user = True\<rparr>)]\<rparr>),
   (''lockin.PhaseGet'', \<lparr>func = Nanonis ''LockIn_DemodPhasGet'', args = [
       (''Demodulator number'', \<lparr>arg_type = np_int32, arg_default = IntLit 1, user = False\<rparr>)]\<rparr>),
   (''lockin.AmplSet'', \<lparr>func = Nanonis ''LockIn_ModAmpSet'', args = [
       (''Modulator number'', \<lparr>arg_type = np_int32, arg_default = IntLit 1, user = False\<rparr>),
       (''Amplitude'', \<lparr>arg_type = np_float32, arg_default = FloatLit ''1e-3'', user = True\<rparr>)]\<rparr>),
   (''lockin.AmplGet'', \<lparr>func = Nanonis ''LockIn_ModAmpGet'', args = [
       (''Modulator number'', \<lparr>arg_type = np_int32, arg_default = IntLit 1, user = False\<rparr>)]\<rparr>),
   (''lockin.FreqSet'', \<lparr>func = Nanonis ''LockIn_ModPhasFreqSet'', args = [
       (''Modulator number'', \<lparr>arg_type = np_int32, arg_default = IntLit 1, user = False\<rparr>),
       (''Frequency (Hz)'', \<lparr>arg_type = np_float32, arg_default = FloatLit ''187.0'', user = True\<rparr>)]\<rparr>),
   (''lockin.FreqGet'', \<lparr>func = Nanonis ''LockIn_ModPhasFreqGet'', args = [
       (''Modulator number'', \<lparr>arg_type = np_int32, arg_default = IntLit 1, user = False\<rparr>)]\<rparr>),
   (''atomtrack.ModSet'', \<lparr>func = Nanonis ''AtomTrack_CtrlSet'', args = [
       (''AT control'', \<lparr>arg_type = np_uint16, arg_default = IntLit 0, user = False\<rparr>),
       (''Status'', \<lparr>arg_type = np_uint16, arg_default = IntLit 0, user = True\<rparr>)]\<rparr>),
   (''atomtrack.TrackSet'', \<lparr>func = Nanonis ''AtomTrack_CtrlSet'', args = [
       (''AT control'', \<lparr>arg_type = np_uint16, arg_default = IntLit 1, user = False\<rparr>),
       (''Status'', \<lparr>arg_type = np_uint16, arg_default = IntLit 0, user = True\<rparr>)]\<rparr>),
   (''withdraw'', \<lparr>func = Nanonis ''ZCtrl_Withdraw'', args = [
       (''Wait until finished'', \<lparr>arg_type = np_uint32, arg_default = IntLit 1, user = False\<rparr>),
       (''punTimeout (ms)ct'', \<lparr>arg_type = np_int32, arg_default = IntLit (-1), user = False\<rparr>)]\<rparr>),
   (''drift.Get'', \<lparr>func = Nanonis ''Piezo_DriftCompGet'', args = []\<rparr>),
   (''drift.Set'', \<lparr>func = Nanonis ''Piezo_DriftCompSet'', args = [
       (''Compensation status'', \<lparr>arg_type = np_uint32, arg_default = IntLit 1, user = True\<rparr>),
       (''Vx (m/s)'', \<lparr>arg_type = np_float32, arg_default = FloatLit ''0.0'', user = True\<rparr>),
       (''Vy (m/s)'', \<lparr>arg_type = np_float32, arg_default = FloatLit ''0.0'', user = True\<rparr>),
       (''Vz (m/s)'', \<lparr>arg_type = np_float32, arg_default = FloatLit ''0.0'', user = True\<rparr>),
       (''Saturation limit (%)'', \<lparr>arg_type = np_float32, arg_default = FloatLit ''10.0'', user = False\<rparr>)]\<rparr>),
   (''xy.Get'', \<lparr>func = SI getXY, args = []\<rparr>),
   (''xy.Set'', \<lparr>func = SI setZ, args = [
       (''x (m)'', \<lparr>arg_type = np_float64, arg_default = FloatLit ''0.0'', user = True\<rparr>),
       (''y (m)'', \<lparr>arg_type = np_float64, arg_default = FloatLit ''0.0'', user = True\<rparr>)]\<rparr>),
   (''z.Get'', \<lparr>func = SI getZ, args = []\<rparr>),
   (''z.Set'', \<lparr>func = SI setZ, args = [
       (''z (m)'', \<lparr>arg_type = np_float32, arg_default = FloatLit ''0.0'', user = True\<rparr>)]\<rparr>),
   (''x.Add'', \<lparr>func = SI addX, args = [
       (''dx (m)'', \<lparr>arg_type = np_float64, arg_default = FloatLit ''0.0'', user = True\<rparr>)]\<rparr>),
   (''y.Add'', \<lparr>func = SI addY, args = [
       (''dy (m)'', \<lparr>arg_type = np_float64, arg_default = FloatLit ''0.0'', user = True\<rparr>)]\<rparr>),
   (''z.Add'', \<lparr>func = SI addZ, args = [
       (''dz (m)'', \<lparr>arg_type = np_float32, arg_default = FloatLit ''0.0'', user = True\<rparr>)]\<rparr>),
   (''wait'', \<lparr>func = SI wait, args = [
       (''Time (s)'', \<lparr>arg_type = np_uint32, arg_default = IntLit 5, user = True\<rparr>)]\<rparr>),
   (''bias.Add'', \<lparr>func = SI addBias, args = [
       (''Bias value (V)'', \<lparr>arg_type = np_float32, arg_default = FloatLit ''0.1'', user = True\<rparr>)]\<rparr>),
   (''current.Add'', \<lparr>func = SI addCurrent, args = [
       (''Current value (A)'', \<lparr>arg_type = np_float32, arg_default = FloatLit ''50e-12'', user = True\<rparr>)]\<rparr>),
   (''drift.correctZ'', \<lparr>func = SI correctZDrift, args = [
       (''Time (s)'', \<lparr>arg_type = np_uint32, arg_default = IntLit 5, user = True\<rparr>)]\<rparr>),
   (''QuPe.FreqSet'', \<lparr>func = Lambda_QuPe_FreqSet, args = [
       (''Frequency (Hz)'', \<lparr>arg_type = np_float32, arg_default = FloatLit ''1e9'', user = True\<rparr>)]\<rparr>)]"

definition registry_lookup :: "string \<Rightarrow> cmd_info option" where
  \<comment> \<open>\<^verbatim>\<open>FUNCTION_REGISTRY[cmd_name]\<close>; \<open>None\<close> when the key is absent.\<close>
  "registry_lookup cmd_name = map_of FUNCTION_REGISTRY cmd_name"

fun si_arity :: "si_method \<Rightarrow> nat" where
  \<comment> \<open>The number of parameters after \<^verbatim>\<open>self\<close> in each method's \<^verbatim>\<open>def\<close>.\<close>
  "si_arity getXY = 0"
| "si_arity getZ = 0"
| "si_arity setXY = 2"
| "si_arity setZ = 1"
| "si_arity addX = 1"
| "si_arity addY = 1"
| "si_arity addZ = 1"
| "si_arity addBias = 1"
| "si_arity addCurrent = 1"
| "si_arity wait = 1"
| "si_arity correctZDrift = 1"

fun py_arity :: "func_ref \<Rightarrow> nat option" where
  \<comment> \<open>The positional parameter count of a bound capability, where the source defines it; the
      signatures of the instrument driver are not part of this repository.\<close>
  "py_arity (SI m) = Some (si_arity m)"
| "py_arity Lambda_QuPe_FreqSet = Some 1"
| "py_arity (Nanonis name) = None"

section \<open>Validation: \<^verbatim>\<open>ScriptingInterface.check_syntax\<close>\<close>

datatype exn =
    TypeError | ValueError | IndexError | KeyError
  | UnboundLocalError  \<comment> \<open>a subclass of NameError\<close>
  | AttributeError | OverflowError
  | External string    \<comment> \<open>an exception raised inside a capability\<close>

datatype syntax_error =
    InvalidLoop nat string             \<comment> \<open>\<^verbatim>\<open>Line n: invalid loop syntax -> line\<close>\<close>
  | EndWithoutLoop nat string          \<comment> \<open>\<^verbatim>\<open>Line n: 'end' without matching 'loop' -> line\<close>\<close>
  | UnknownCommand nat string          \<comment> \<open>\<^verbatim>\<open>Line n: unknown command -> line\<close>\<close>
  | WrongArgCount nat string nat int string
      \<comment> \<open>\<^verbatim>\<open>Line n: wrong number of arguments for 'cmd'. Expected e, got g -> line\<close>\<close>
  | UnclosedLoop                       \<comment> \<open>\<^verbatim>\<open>Unclosed 'loop' detected\<close>\<close>

definition script_lines :: "string \<Rightarrow> string list" where
  \<comment> \<open>\<^verbatim>\<open>[line.strip() for line in script.splitlines() if line.strip()]\<close>\<close>
  "script_lines script = map strip (filter (\<lambda>line. strip line \<noteq> []) (splitlines script))"

definition expected_user_args :: "cmd_info \<Rightarrow> nat" where
  \<comment> \<open>\<^verbatim>\<open>sum(1 for a in cmd_info["args"].values() if a["user"])\<close>\<close>
  "expected_user_args ci = length (filter (\<lambda>(name, a). user a) (args ci))"

definition check_line ::
  "nat \<Rightarrow> string \<Rightarrow> syntax_error list \<times> string list \<Rightarrow> exn + (syntax_error list \<times> string list)"
where
  \<comment> \<open>One iteration of the loop of \<^verbatim>\<open>check_syntax\<close> on the pair (errors, stack); the stack
      grows at its end, as the Python list does.\<close>
  "check_line line_num line st =
     (case st of (errors, stack) \<Rightarrow>
        if startswith line ''loop'' then
          (let parts = split_ws line in
           if length parts \<noteq> 2 \<or> \<not> isdigit (parts ! 1)
           then Inr (errors @ [InvalidLoop line_num line], stack)
           else Inr (errors, stack @ [''loop'']))
        else if line = ''end'' then
          (if stack = [] then Inr (errors @ [EndWithoutLoop line_num line], stack)
           else Inr (errors, butlast stack))
        else
          (case split_ws line of
             [] \<Rightarrow> Inl IndexError
           | cmd_name # user_values \<Rightarrow>
               (case registry_lookup cmd_name of
                  None \<Rightarrow> Inr (errors @ [UnknownCommand line_num line], stack)
                | Some ci \<Rightarrow>
                    (let given_args = int (length (cmd_name # user_values)) - 1 in
                     if given_args \<noteq> int (expected_user_args ci)
                     then Inr (errors @ [WrongArgCount line_num cmd_name
                                          (expected_user_args ci) given_args line], stack)
                     else Inr (errors, stack)))))"

fun check_loop ::
  "nat \<Rightarrow> string list \<Rightarrow> syntax_error list \<times> string list \<Rightarrow> exn + (syntax_error list \<times> string list)"
where
  "check_loop line_num [] st = Inr st"
| "check_loop line_num (line # rest) st =
     (case check_line line_num line st of
        Inl e \<Rightarrow> Inl e
      | Inr st' \<Rightarrow> check_loop (Suc line_num) rest st')"

definition check_syntax :: "string \<Rightarrow> exn + syntax_error list" where
  "check_syntax script =
     (case check_loop 1 (script_lines script) ([], []) of
        Inl e \<Rightarrow> Inl e
      | Inr (errors, stack) \<Rightarrow>
          Inr (if stack \<noteq> [] then errors @ [UnclosedLoop] else errors))"

section \<open>Expansion: \<^verbatim>\<open>ScriptingInterface._parse_block\<close> and \<^verbatim>\<open>parse_commands\<close>\<close>

text \<open>
  The numpy conversions \<^verbatim>\<open>np.float32(token)\<close>, ... are not part of the repository: they
  are a parameter \<open>conv\<close>, which returns the converted value or the exception raised.
\<close>

datatype 'v argval = Converted 'v | Default pylit

record 'v pcmd =
  cmd :: string
  bound_func :: func_ref
  arg_values :: "'v argval list"

type_synonym 'v conv = "np_type \<Rightarrow> string \<Rightarrow> exn + 'v"

fun resolve_args ::
  "'v conv \<Rightarrow> (string \<times> arg_info) list \<Rightarrow> string list \<Rightarrow> nat \<Rightarrow> 'v argval list
     \<Rightarrow> exn + 'v argval list"
where
  \<comment> \<open>The loop over \<^verbatim>\<open>cmd_info["args"].items()\<close>, with its counter \<open>user_index\<close> and
      the list \<open>acc\<close> built so far; reading \<open>user_values\<close> out of range is the IndexError.\<close>
  "resolve_args conv [] user_values user_index acc = Inr acc"
| "resolve_args conv ((arg_name, ai) # rest) user_values user_index acc =
     (if user ai then
        (if user_index < length user_values then
           (case conv (arg_type ai) (user_values ! user_index) of
              Inl e \<Rightarrow> Inl e
            | Inr v \<Rightarrow> resolve_args conv rest user_values (user_index + 1) (acc @ [Converted v]))
         else Inl IndexError)
      else resolve_args conv rest user_values user_index (acc @ [Default (arg_default ai)]))"

definition sys_maxsize :: int where
  \<comment> \<open>\<^verbatim>\<open>sys.maxsize\<close>, the largest index of a sequence, on a 64-bit interpreter.\<close>
  "sys_maxsize = 9223372036854775807"

definition repeat :: "'a list \<Rightarrow> int \<Rightarrow> exn + 'a list" where
  \<comment> \<open>\<^verbatim>\<open>block * count\<close>: a count that does not fit an index raises OverflowError; the
      list is empty when the count is not positive. Running out of memory for the list
      depends on the machine and is not part of the model.\<close>
  "repeat block count =
     (if count > sys_maxsize \<or> count < - sys_maxsize - 1 then Inl OverflowError
      else Inr (concat (replicate (nat count) block)))"

function parse_block_from ::
  "'v conv \<Rightarrow> string list \<Rightarrow> nat \<Rightarrow> 'v pcmd list \<Rightarrow> exn + ('v pcmd list \<times> nat)"
where
  \<comment> \<open>The \<^verbatim>\<open>while\<close> loop of \<^verbatim>\<open>_parse_block\<close> from \<open>index\<close> with the list \<open>result\<close>
      built so far. Unpacking \<^verbatim>\<open>line.split()\<close> into two names and \<^verbatim>\<open>int\<close> raise
      ValueError; binding the capability to its receiver leaves the reference as it is.
      The recursive call builds its \<^verbatim>\<open>INSTANCE_MAP\<close> from the same attributes of the same
      object as the call that makes it, so it goes to the loop directly.\<close>
  "parse_block_from conv lines index result =
     (if index < length lines then
        (let line = lines ! index in
         if startswith line ''loop'' then
           (case split_ws line of
              [u, count_str] \<Rightarrow>
                (case py_int count_str of
                   None \<Rightarrow> Inl ValueError
                 | Some count \<Rightarrow>
                     (case parse_block_from conv lines (index + 1) [] of
                        Inl e \<Rightarrow> Inl e
                      | Inr (block, index') \<Rightarrow>
                          (case repeat block count of
                             Inl e \<Rightarrow> Inl e
                           | Inr copies \<Rightarrow>
                               parse_block_from conv lines index' (result @ copies))))
            | _ \<Rightarrow> Inl ValueError)
         else if line = ''end'' then Inr (result, index + 1)
         else
           (case split_ws line of
              [] \<Rightarrow> Inl IndexError
            | cmd_name # user_values \<Rightarrow>
                (case registry_lookup cmd_name of
                   None \<Rightarrow> Inl KeyError
                 | Some ci \<Rightarrow>
                     (case resolve_args conv (args ci) user_values 0 [] of
                        Inl e \<Rightarrow> Inl e
                      | Inr vs \<Rightarrow>
                          parse_block_from conv lines (index + 1)
                            (result @ [\<lparr>cmd = cmd_name, bound_func = func ci,
                                         arg_values = vs\<rparr>])))))
      else Inr (result, index))"
  by pat_completeness auto

lemma parse_block_from_index:
  "parse_block_from_dom (conv, lines, index, result) \<Longrightarrow>
   parse_block_from conv lines index result = Inr (out, j) \<Longrightarrow> index \<le> j"
proof (induction conv lines index result arbitrary: out j rule: parse_block_from.pinduct)
  case (1 conv lines index result)
  show ?case
    using "1.prems" "1.IH" "1.hyps"
    apply (subst (asm) parse_block_from.psimps)
     apply assumption
    apply (auto simp: Let_def split: if_splits list.splits option.splits sum.splits prod.splits)
     apply (meson Suc_leD le_trans)
    apply (meson Suc_leD)
    done
qed

termination parse_block_from
  by (relation "measure (\<lambda>(conv, lines, index, result). length lines - index)")
     (auto dest: parse_block_from_index)

declare parse_block_from.simps [simp del]

definition parse_block ::
  "bool \<Rightarrow> 'v conv \<Rightarrow> string list \<Rightarrow> nat \<Rightarrow> exn + ('v pcmd list \<times> nat)"
where
  \<comment> \<open>A call of \<^verbatim>\<open>_parse_block\<close>. Building \<^verbatim>\<open>INSTANCE_MAP\<close> reads \<^verbatim>\<open>self.nanonis\<close>, an
      attribute that only a successful \<^verbatim>\<open>connect\<close> binds: \<open>has_nanonis\<close> tells whether the
      interface has it, and reading it raises AttributeError when it has not.\<close>
  "parse_block has_nanonis conv lines index =
     (if has_nanonis then parse_block_from conv lines index [] else Inl AttributeError)"

definition parse_commands ::
  "bool \<Rightarrow> 'v conv \<Rightarrow> string \<Rightarrow> exn + ('v pcmd list option \<times> syntax_error list)"
where
  "parse_commands has_nanonis conv script =
     (case check_syntax script of
        Inl e \<Rightarrow> Inl e
      | Inr errors \<Rightarrow>
          if errors \<noteq> [] then Inr (None, errors)
          else (case parse_block has_nanonis conv (script_lines script) 0 of
                  Inl e \<Rightarrow> Inl e
                | Inr (commands, index) \<Rightarrow> Inr (Some commands, [])))"

section \<open>Invoking a capability\<close>

text \<open>
  What a capability does is outside the repository's scripting core (the instrument driver,
  the network): it is a parameter \<open>dev\<close> on a device state. A call \<^verbatim>\<open>func(*args)\<close>
  first binds the arguments to the parameters, which raises TypeError when their numbers
  differ.
\<close>

type_synonym 'x result = "string \<times> string \<times> 'x list"

type_synonym ('v, 'x, 'd) device =
  "func_ref \<Rightarrow> 'v argval list \<Rightarrow> 'd \<Rightarrow> (exn + 'x result) \<times> 'd"

definition invoke :: "('v, 'x, 'd) device \<Rightarrow> 'v pcmd \<Rightarrow> 'd \<Rightarrow> (exn + 'x result) \<times> 'd" where
  "invoke dev entry d =
     (case py_arity (bound_func entry) of
        None \<Rightarrow> dev (bound_func entry) (arg_values entry) d
      | Some n \<Rightarrow>
          if length (arg_values entry) \<noteq> n then (Inl TypeError, d)
          else dev (bound_func entry) (arg_values entry) d)"

section \<open>The worker thread: \<^verbatim>\<open>runScriptThread\<close>\<close>

datatype signal =
    logSignal string string string
  | errorMsg "syntax_error list"  \<comment> \<open>the text lists these errors, one per line\<close>
  | scriptStatus string

record ('v, 'x, 'd) externals =
  has_nanonis :: bool               \<comment> \<open>whether the interface has its attribute \<^verbatim>\<open>nanonis\<close>\<close>
  conv_of :: "'v conv"
  dev_of :: "('v, 'x, 'd) device"
  str_arg :: "'v argval \<Rightarrow> string"  \<comment> \<open>\<^verbatim>\<open>str(x)\<close> of an argument value\<close>
  str_var :: "'x \<Rightarrow> string"         \<comment> \<open>\<^verbatim>\<open>str(x)\<close> of a returned variable\<close>

record ('v, 'd) thread_state =
  device :: 'd
  emitted :: "signal list"      \<comment> \<open>the signals emitted so far, in order\<close>
  invoked :: "'v pcmd list"     \<comment> \<open>the entries whose capability was called, in order\<close>
  raised :: "exn option"        \<comment> \<open>the exception that ended the thread, if any\<close>

fun execute_loop ::
  "('v, 'x, 'd) externals \<Rightarrow> (nat \<Rightarrow> bool) \<Rightarrow> nat \<Rightarrow> 'v pcmd list
     \<Rightarrow> ('v, 'd) thread_state \<Rightarrow> ('v, 'd) thread_state"
where
  \<comment> \<open>The \<^verbatim>\<open>for\<close> loop of \<^verbatim>\<open>runScriptThread.execute\<close>; \<open>cancelScript i\<close> is the value of
      the flag \<^verbatim>\<open>self.cancelScript\<close> read at the iteration for entry number \<open>i\<close>.\<close>
  "execute_loop E cancelScript i [] st = st"
| "execute_loop E cancelScript i (entry # rest) st =
     (if cancelScript i = False then
        (case invoke (dev_of E) entry (device st) of
           (Inl e, d') \<Rightarrow>
             st\<lparr>device := d', invoked := invoked st @ [entry], raised := Some e\<rparr>
         | (Inr (errorString, response, variables), d') \<Rightarrow>
             (let status = (if length errorString \<noteq> 0 then errorString else ''OK'');
                  st1 = st\<lparr>device := d', invoked := invoked st @ [entry],
                          emitted := emitted st @
                            [logSignal ''Request''
                               (cmd entry @ '' '' @ join '' '' (map (str_arg E) (arg_values entry)))
                               status]\<rparr>;
                  st2 = (if length variables > 0
                         then st1\<lparr>emitted := emitted st1 @
                                [logSignal ''Response''
                                   (''['' @ join '', '' (map (str_var E) variables) @ '']'') '''']\<rparr>
                         else st1)
              in execute_loop E cancelScript (i + 1) rest st2))
      else execute_loop E cancelScript (i + 1) rest st)"

definition runScriptThread_execute ::
  "('v, 'x, 'd) externals \<Rightarrow> (nat \<Rightarrow> bool) \<Rightarrow> 'v pcmd list
     \<Rightarrow> ('v, 'd) thread_state \<Rightarrow> ('v, 'd) thread_state"
where
  "runScriptThread_execute E cancelScript commands st =
     (let st1 = st\<lparr>emitted := emitted st @ [scriptStatus ''Running'']\<rparr>;
          st2 = execute_loop E cancelScript 0 commands st1
      in if raised st2 = None
         then st2\<lparr>emitted := emitted st2 @ [scriptStatus ''Finished'']\<rparr>
         else st2)"

definition runScriptThread_run ::
  "('v, 'x, 'd) externals \<Rightarrow> (nat \<Rightarrow> bool) \<Rightarrow> string
     \<Rightarrow> ('v, 'd) thread_state \<Rightarrow> ('v, 'd) thread_state"
where
  "runScriptThread_run E cancelScript script st =
     (case parse_commands (has_nanonis E) (conv_of E) script of
        Inl e \<Rightarrow> st\<lparr>raised := Some e\<rparr>
      | Inr (commands, errors) \<Rightarrow>
          if errors \<noteq> []
          then st\<lparr>emitted := emitted st @ [errorMsg errors, scriptStatus ''Syntax errors'']\<rparr>
          else (case commands of
                  None \<Rightarrow> st\<lparr>raised := Some TypeError\<rparr>
                | Some cs \<Rightarrow> runScriptThread_execute E cancelScript cs st))"

definition initial_state :: "'d \<Rightarrow> ('v, 'd) thread_state" where
  "initial_state d = \<lparr>device = d, emitted = [], invoked = [], raised = None\<rparr>"

section \<open>\<^verbatim>\<open>ScriptingInterface.execute\<close>\<close>

fun si_execute_loop ::
  "('v, 'x, 'd) device \<Rightarrow> 'v pcmd list \<Rightarrow> 'd \<Rightarrow> 'x result option
     \<Rightarrow> (exn + 'x result option) \<times> 'd"
where
  \<comment> \<open>The \<^verbatim>\<open>for\<close> loop; \<open>bound\<close> holds the three result variables once they are bound.\<close>
  "si_execute_loop dev [] d bound = (Inr bound, d)"
| "si_execute_loop dev (entry # rest) d bound =
     (case invoke dev entry d of
        (Inl e, d') \<Rightarrow> (Inl e, d')
      | (Inr r, d') \<Rightarrow> si_execute_loop dev rest d' (Some r))"

definition ScriptingInterface_execute ::
  "('v, 'x, 'd) externals \<Rightarrow> string \<Rightarrow> 'd \<Rightarrow> (exn + 'x result) \<times> 'd"
where
  \<comment> \<open>Iterating over \<^verbatim>\<open>None\<close> raises TypeError; returning the unbound result variables
      raises UnboundLocalError.\<close>
  "ScriptingInterface_execute E script d =
     (case parse_commands (has_nanonis E) (conv_of E) script of
        Inl e \<Rightarrow> (Inl e, d)
      | Inr (commands, errors) \<Rightarrow>
          (case commands of
             None \<Rightarrow> (Inl TypeError, d)
           | Some cs \<Rightarrow>
               (case si_execute_loop (dev_of E) cs d None of
                  (Inl e, d') \<Rightarrow> (Inl e, d')
                | (Inr None, d') \<Rightarrow> (Inl UnboundLocalError, d')
                | (Inr (Some r), d') \<Rightarrow> (Inr r, d'))))"

section \<open>\<^verbatim>\<open>TCPClient.query\<close>\<close>

datatype error_field =
    ErrStr string          \<comment> \<open>the first component is a string\<close>
  | ErrList "string list"  \<comment> \<open>the first component is a list of strings\<close>

definition TCPClient_query :: "string + string \<Rightarrow> error_field \<times> string \<times> string list" where
  \<comment> \<open>The argument is the outcome of the exchange inside the \<^verbatim>\<open>try\<close>: the text of the
      exception caught, or the decoded bytes received.\<close>
  "TCPClient_query exchange =
     (case exchange of
        Inl e \<Rightarrow> (ErrStr e, '''', [])
      | Inr received \<Rightarrow>
          (let decoded = strip received;
               parts = split_on (CHR ''|'') decoded
           in if length parts \<noteq> 3 then (ErrStr ''Malformed response'', decoded, [])
              else
                (let error = (if parts ! 0 = ''None'' then '''' else parts ! 0);
                     response = (if parts ! 1 = ''None'' then '''' else parts ! 1);
                     variable = (if parts ! 2 = ''None'' then []
                                 else split_on (CHR '','') (parts ! 2))
                 in (ErrList [error], response, variable))))"

section \<open>The log of a run, as the specification describes it\<close>

definition request_status :: "string \<Rightarrow> string" where
  \<comment> \<open>The status of a Request entry: \<^verbatim>\<open>OK\<close> for an empty error text, else the text.\<close>
  "request_status errorText = (if errorText = [] then ''OK'' else errorText)"

definition log_entries :: "('v, 'x, 'd) externals \<Rightarrow> 'v pcmd \<Rightarrow> 'x result \<Rightarrow> signal list" where
  \<comment> \<open>The entries one executed command adds: one Request entry, followed by one
      Response entry when the command returned variables.\<close>
  "log_entries E entry r =
     (case r of (errorText, response, variables) \<Rightarrow>
        logSignal ''Request''
          (cmd entry @ '' '' @ join '' '' (map (str_arg E) (arg_values entry)))
          (request_status errorText)
        # (if variables = [] then []
           else [logSignal ''Response''
                   (''['' @ join '', '' (map (str_var E) variables) @ '']'') '''']))"

fun outcomes ::
  "('v, 'x, 'd) device \<Rightarrow> 'v pcmd list \<Rightarrow> 'd \<Rightarrow> ('x result list \<times> 'd) option"
where
  \<comment> \<open>The results of calling the commands one after the other, with the device state
      reached; \<open>None\<close> when a call raises.\<close>
  "outcomes dev [] d = Some ([], d)"
| "outcomes dev (entry # rest) d =
     (case invoke dev entry d of
        (Inl e, d') \<Rightarrow> None
      | (Inr r, d') \<Rightarrow>
          (case outcomes dev rest d' of
             None \<Rightarrow> None
           | Some (rs, d'') \<Rightarrow> Some (r # rs, d'')))"

section \<open>Argument slots, as the specification describes them\<close>



definition positive_int_literal :: "string \<Rightarrow> bool" where
  \<comment> \<open>The token is an integer literal whose value is strictly greater than zero.\<close>
  "positive_int_literal tok = (case py_int tok of None \<Rightarrow> False | Some n \<Rightarrow> 0 < n)"

section \<open>Open loops, as the specification describes them\<close>

fun open_after :: "nat \<Rightarrow> string list \<Rightarrow> nat" where
  \<comment> \<open>The number of open-loop markers after scanning the lines, starting from \<open>k\<close> markers:
      an accepted loop line adds one, an \<^verbatim>\<open>end\<close> line removes one if there is one.\<close>
  "open_after k [] = k"
| "open_after k (line # rest) =
     open_after
       (if startswith line ''loop''
        then (if length (split_ws line) = 2 \<and> isdigit (split_ws line ! 1) then k + 1 else k)
        else if line = ''end'' then k - 1
        else k)
       rest"

section \<open>Script nodes and loop expansion, as the specification describes them\<close>

datatype node =
    CommandNode string                \<comment> \<open>a command line: the name and its literal tokens\<close>
  | LoopNode string int "node list"   \<comment> \<open>the loop line, its count, its body\<close>

fun script_text :: "node \<Rightarrow> string list" where
  \<comment> \<open>The lines of a node: a loop block is its loop line, its body and \<^verbatim>\<open>end\<close>.\<close>
  "script_text (CommandNode line) = [line]"
| "script_text (LoopNode header count body) = header # concat (map script_text body) @ [''end'']"


definition loop_header_count :: "string \<Rightarrow> int option" where
  \<comment> \<open>The count a loop line denotes: its second token of two, read by \<^verbatim>\<open>int\<close>.\<close>
  "loop_header_count header =
     (case split_ws header of [u, count_str] \<Rightarrow> py_int count_str | _ \<Rightarrow> None)"

fun well_formed :: "node \<Rightarrow> bool" where
  \<comment> \<open>A command line is neither a loop line nor \<^verbatim>\<open>end\<close>; a loop line begins with
      \<^verbatim>\<open>loop\<close>, has two tokens, and the node's count is the one the line denotes.\<close>
  "well_formed (CommandNode line) = (\<not> startswith line ''loop'' \<and> line \<noteq> ''end'')"
| "well_formed (LoopNode header count body) =
     (startswith header ''loop'' \<and> length (split_ws header) = 2 \<and>
      (case loop_header_count header of None \<Rightarrow> True | Some k \<Rightarrow> count = k) \<and>
      list_all well_formed body)"

definition command_entry :: "'v conv \<Rightarrow> string \<Rightarrow> exn + 'v pcmd" where
  \<comment> \<open>The parsed command of a command line: its name, the capability the registry binds to
      it and its resolved arguments.\<close>
  "command_entry conv line =
     (case split_ws line of
        [] \<Rightarrow> Inl IndexError
      | cmd_name # user_values \<Rightarrow>
          (case registry_lookup cmd_name of
             None \<Rightarrow> Inl KeyError
           | Some ci \<Rightarrow>
               (case resolve_args conv (args ci) user_values 0 [] of
                  Inl e \<Rightarrow> Inl e
                | Inr vs \<Rightarrow> Inr \<lparr>cmd = cmd_name, bound_func = func ci, arg_values = vs\<rparr>)))"

fun collect :: "(exn + 'a list) list \<Rightarrow> exn + 'a list" where
  \<comment> \<open>The concatenation of the sequences, or the first exception.\<close>
  "collect [] = Inr []"
| "collect (r # rs) =
     (case r of
        Inl e \<Rightarrow> Inl e
      | Inr a \<Rightarrow> (case collect rs of Inl e \<Rightarrow> Inl e | Inr b \<Rightarrow> Inr (a @ b)))"

fun expand_node :: "'v conv \<Rightarrow> node \<Rightarrow> exn + 'v pcmd list" where
  \<comment> \<open>The flat sequence of a node: a command is its one parsed command, a loop is the
      sequence of its body repeated count times (\<open>repeat\<close>); a loop line whose count
      \<^verbatim>\<open>int\<close> does not read raises ValueError.\<close>
  "expand_node conv (CommandNode line) =
     (case command_entry conv line of Inl e \<Rightarrow> Inl e | Inr entry \<Rightarrow> Inr [entry])"
| "expand_node conv (LoopNode header count body) =
     (case loop_header_count header of
        None \<Rightarrow> Inl ValueError
      | Some k \<Rightarrow>
          (case collect (map (expand_node conv) body) of
             Inl e \<Rightarrow> Inl e
           | Inr block \<Rightarrow> repeat block count))"



section \<open>A sample environment for concrete instances\<close>

definition sample_externals :: "(string, nat, nat) externals" where
  \<comment> \<open>An interface that has connected. Conversions keep the token text; \<^verbatim>\<open>wait\<close> reports
      the error text \<^verbatim>\<open>busy\<close> and no variable, every other capability an empty error text
      and the device counter as its one variable; each call increments the counter.\<close>
  "sample_externals =
     \<lparr>has_nanonis = True,
      conv_of = (\<lambda>t s. Inr s),
      dev_of = (\<lambda>f a d. (if f = SI wait then Inr (''busy'', '''', [])
                          else Inr ('''', '''', [d]), Suc d)),
      str_arg = (\<lambda>a. (case a of Converted s \<Rightarrow> s | Default l \<Rightarrow> ''default'')),
      str_var = (\<lambda>n. replicate (Suc n) (CHR ''I''))\<rparr>"

section \<open>Facts about the string primitives\<close>

lemma is_linebreak_isspace: "is_linebreak c \<Longrightarrow> isspace c"
  by (auto simp: is_linebreak_def isspace_def)

lemma split_acc_word:
  "\<forall>c\<in>set w. \<not> isspace c \<Longrightarrow> split_acc cur (w @ rest) = split_acc (cur @ w) rest"
  by (induction w arbitrary: cur) auto

lemma split_acc_nonempty:
  "cur \<noteq> [] \<or> (\<exists>c\<in>set s. \<not> isspace c) \<Longrightarrow> split_acc cur s \<noteq> []"
  by (induction s arbitrary: cur) auto

lemma split_ws_nonempty: "\<exists>c\<in>set s. \<not> isspace c \<Longrightarrow> split_ws s \<noteq> []"
  by (simp add: split_ws_def split_acc_nonempty)

lemma splitlines_acc_no_break:
  "\<forall>c\<in>set s. \<not> is_linebreak c \<Longrightarrow>
   splitlines_acc cur s = (if cur @ s = [] then [] else [cur @ s])"
  by (induction s arbitrary: cur) auto

lemma strip_clean:
  assumes "s \<noteq> []" "\<not> isspace (hd s)" "\<not> isspace (last s)"
  shows "strip s = s"
proof -
  have 1: "dropWhile isspace s = s"
    using assms by (simp add: dropWhile_eq_self_iff)
  have 2: "dropWhile isspace (rev s) = rev s"
    using assms by (simp add: dropWhile_eq_self_iff hd_rev)
  show ?thesis by (simp add: strip_def 1 2)
qed

lemma strip_Nil_iff: "strip s = [] \<longleftrightarrow> (\<forall>c\<in>set s. isspace c)"
proof
  assume e: "strip s = []"
  show "\<forall>c\<in>set s. isspace c"
  proof (rule ccontr)
    assume "\<not> (\<forall>c\<in>set s. isspace c)"
    then have n: "dropWhile isspace s \<noteq> []" by (simp add: dropWhile_eq_Nil_conv)
    then have "\<not> isspace (hd (dropWhile isspace s))" by (rule hd_dropWhile)
    moreover have "hd (dropWhile isspace s) \<in> set (rev (dropWhile isspace s))" using n by simp
    ultimately have "dropWhile isspace (rev (dropWhile isspace s)) \<noteq> []"
      unfolding dropWhile_eq_Nil_conv by blast
    then show False using e by (simp add: strip_def)
  qed
next
  assume "\<forall>c\<in>set s. isspace c"
  then have "dropWhile isspace s = []" using dropWhile_eq_Nil_conv by blast
  then have "strip s = rev (dropWhile isspace (rev []))" by (simp only: strip_def)
  then show "strip s = []" by simp
qed

lemma strip_set: "set (strip s) \<subseteq> set s"
  unfolding strip_def using set_dropWhileD by (metis set_rev subsetI)

lemma strip_has_nonspace: "strip s \<noteq> [] \<Longrightarrow> \<exists>c\<in>set (strip s). \<not> isspace c"
proof -
  assume n: "strip s \<noteq> []"
  let ?t = "rev (dropWhile isspace s)"
  have "dropWhile isspace ?t \<noteq> []" using n by (simp add: strip_def)
  then have "\<not> isspace (hd (dropWhile isspace ?t))" by (rule hd_dropWhile)
  moreover have "hd (dropWhile isspace ?t) \<in> set (strip s)" using n by (simp add: strip_def)
  ultimately show ?thesis by blast
qed

lemma script_lines_nonspace:
  "line \<in> set (script_lines script) \<Longrightarrow> \<exists>c\<in>set line. \<not> isspace c"
  by (auto simp: script_lines_def dest: strip_has_nonspace)

lemma split_ws_three_words:
  assumes "a \<noteq> []" "x \<noteq> []" "y \<noteq> []"
    and "\<forall>c\<in>set a. \<not> isspace c" "\<forall>c\<in>set x. \<not> isspace c" "\<forall>c\<in>set y. \<not> isspace c"
  shows "split_ws (a @ '' '' @ x @ '' '' @ y) = [a, x, y]"
proof -
  have sp: "isspace (CHR '' '')" by (simp add: isspace_def)
  have "split_ws (a @ '' '' @ x @ '' '' @ y) = split_acc a ('' '' @ x @ '' '' @ y)"
    using split_acc_word [OF assms(4), of "[]"] by (simp add: split_ws_def)
  also have "\<dots> = a # split_acc [] (x @ '' '' @ y)"
    using assms(1) sp by simp
  also have "split_acc [] (x @ '' '' @ y) = split_acc x ('' '' @ y)"
    using split_acc_word [OF assms(5), of "[]"] by simp
  also have "\<dots> = x # split_acc [] (y @ [])"
    using assms(2) sp by simp
  also have "split_acc [] (y @ []) = split_acc y []"
    using split_acc_word [OF assms(6), of "[]" "[]"] by simp
  also have "\<dots> = [y]" using assms(3) by simp
  finally show ?thesis .
qed

lemma single_line_script:
  assumes "s \<noteq> []" "\<forall>c\<in>set s. \<not> is_linebreak c" "\<not> isspace (hd s)" "\<not> isspace (last s)"
  shows "script_lines s = [s]"
proof -
  have "splitlines s = [s]"
    using assms(1,2) by (simp add: splitlines_def splitlines_acc_no_break)
  moreover have "strip s = s" using assms by (simp add: strip_clean)
  ultimately show ?thesis using assms(1) by (simp add: script_lines_def)
qed


section \<open>One step of the expansion loop\<close>

lemma parse_block_from_done:
  "\<not> index < length lines \<Longrightarrow> parse_block_from conv lines index result = Inr (result, index)"
  by (subst parse_block_from.simps) simp

lemma parse_block_from_end:
  "index < length lines \<Longrightarrow> lines ! index = ''end'' \<Longrightarrow>
   parse_block_from conv lines index result = Inr (result, index + 1)"
  by (subst parse_block_from.simps) (simp add: startswith_def)

lemma parse_block_from_command:
  "index < length lines \<Longrightarrow> \<not> startswith (lines ! index) ''loop'' \<Longrightarrow>
   lines ! index \<noteq> ''end'' \<Longrightarrow> split_ws (lines ! index) = cmd_name # user_values \<Longrightarrow>
   registry_lookup cmd_name = Some ci \<Longrightarrow>
   parse_block_from conv lines index result =
     (case resolve_args conv (args ci) user_values 0 [] of
        Inl e \<Rightarrow> Inl e
      | Inr vs \<Rightarrow>
          parse_block_from conv lines (index + 1)
            (result @ [\<lparr>cmd = cmd_name, bound_func = func ci, arg_values = vs\<rparr>]))"
  by (subst parse_block_from.simps) (simp add: Let_def)

lemma parse_block_from_loop:
  "index < length lines \<Longrightarrow> startswith (lines ! index) ''loop'' \<Longrightarrow>
   split_ws (lines ! index) = [u, count_str] \<Longrightarrow> py_int count_str = Some count \<Longrightarrow>
   parse_block_from conv lines index result =
     (case parse_block_from conv lines (index + 1) [] of
        Inl e \<Rightarrow> Inl e
      | Inr (block, index') \<Rightarrow>
          (case repeat block count of
             Inl e \<Rightarrow> Inl e
           | Inr copies \<Rightarrow> parse_block_from conv lines index' (result @ copies)))"
  by (subst parse_block_from.simps) (simp add: Let_def)


section \<open>Facts about the validation scan\<close>

lemma check_line_cases:
  "check_line n line (errors, stack) =
     (if startswith line ''loop'' then
        (if length (split_ws line) \<noteq> 2 \<or> \<not> isdigit (split_ws line ! 1)
         then Inr (errors @ [InvalidLoop n line], stack)
         else Inr (errors, stack @ [''loop'']))
      else if line = ''end'' then
        (if stack = [] then Inr (errors @ [EndWithoutLoop n line], stack)
         else Inr (errors, butlast stack))
      else
        (case split_ws line of
           [] \<Rightarrow> Inl IndexError
         | cmd_name # user_values \<Rightarrow>
             (case registry_lookup cmd_name of
                None \<Rightarrow> Inr (errors @ [UnknownCommand n line], stack)
              | Some ci \<Rightarrow>
                  if length user_values \<noteq> expected_user_args ci
                  then Inr (errors @ [WrongArgCount n cmd_name (expected_user_args ci)
                                        (int (length user_values)) line], stack)
                  else Inr (errors, stack))))"
  by (auto simp: check_line_def Let_def split: list.splits option.splits)

lemma check_line_errors_grow:
  "check_line n line (errors, stack) = Inr (errors', stack') \<Longrightarrow> \<exists>more. errors' = errors @ more"
  by (auto simp: check_line_cases split: if_splits list.splits option.splits)

lemma check_loop_errors_grow:
  "check_loop n ls (errors, stack) = Inr (errors', stack') \<Longrightarrow> \<exists>more. errors' = errors @ more"
proof (induction ls arbitrary: n errors stack)
  case Nil
  then show ?case by simp
next
  case (Cons l ls)
  from Cons.prems obtain e1 s1 where
    1: "check_line n l (errors, stack) = Inr (e1, s1)" and
    2: "check_loop (Suc n) ls (e1, s1) = Inr (errors', stack')"
    by (auto split: sum.splits)
  from check_line_errors_grow [OF 1] Cons.IH [OF 2] show ?case by auto
qed

lemma check_loop_append:
  "check_loop n (xs @ ys) st =
     (case check_loop n xs st of
        Inl e \<Rightarrow> Inl e
      | Inr st' \<Rightarrow> check_loop (n + length xs) ys st')"
  by (induction xs arbitrary: n st) (auto split: sum.splits)

lemma check_line_total:
  "split_ws line \<noteq> [] \<Longrightarrow> \<exists>st'. check_line n line st = Inr st'"
  by (cases st) (auto simp: check_line_cases split: list.splits option.splits)

lemma check_loop_total:
  "\<forall>l\<in>set ls. split_ws l \<noteq> [] \<Longrightarrow> \<exists>st'. check_loop n ls st = Inr st'"
proof (induction ls arbitrary: n st)
  case Nil
  then show ?case by simp
next
  case (Cons l ls)
  then obtain st1 where "check_line n l st = Inr st1"
    using check_line_total [of l n st] by auto
  moreover obtain st2 where "check_loop (Suc n) ls st1 = Inr st2"
    using Cons by fastforce
  ultimately show ?case by simp
qed

lemma check_syntax_total: "\<exists>errors. check_syntax script = Inr errors"
proof -
  have "\<forall>l\<in>set (script_lines script). split_ws l \<noteq> []"
    using script_lines_nonspace split_ws_nonempty by blast
  from check_loop_total [OF this, of 1 "([], [])"]
  show ?thesis by (auto simp: check_syntax_def split: prod.splits)
qed

lemma check_syntax_clean:
  "check_syntax script = Inr [] \<longleftrightarrow> check_loop 1 (script_lines script) ([], []) = Inr ([], [])"
  by (auto simp: check_syntax_def split: sum.splits prod.splits if_splits)

lemma clean_scan_line:
  assumes "check_loop n (xs @ line # ys) ([], stack) = Inr ([], stack')"
  shows "\<exists>s1 s2. check_loop n xs ([], stack) = Inr ([], s1) \<and>
                 check_line (n + length xs) line ([], s1) = Inr ([], s2) \<and>
                 check_loop (Suc (n + length xs)) ys ([], s2) = Inr ([], stack')"
proof -
  from assms obtain e1 s1 where
    1: "check_loop n xs ([], stack) = Inr (e1, s1)" and
    r: "check_loop (n + length xs) (line # ys) (e1, s1) = Inr ([], stack')"
    by (auto simp: check_loop_append split: sum.splits)
  from r obtain e2 s2 where
    2: "check_line (n + length xs) line (e1, s1) = Inr (e2, s2)" and
    3: "check_loop (Suc (n + length xs)) ys (e2, s2) = Inr ([], stack')"
    by (auto split: sum.splits)
  from check_loop_errors_grow [OF 3] have e2: "e2 = []" by simp
  from check_line_errors_grow [OF 2] e2 have e1: "e1 = []" by simp
  show ?thesis using 1 2 3 e1 e2 by auto
qed

section \<open>Facts about integer literals\<close>

lemma is_ascii_digit_val: "is_ascii_digit c \<Longrightarrow> 0 \<le> digit_val c"
  by (auto simp: is_ascii_digit_def digit_val_def)

lemma digits_ok_chars: "digits_ok s \<Longrightarrow> c \<in> set s \<Longrightarrow> is_ascii_digit c \<or> c = CHR ''_''"
  by (induction s rule: digits_ok.induct) (auto split: if_splits)

lemma foldl_digits_nonneg:
  "\<forall>c\<in>set s. is_ascii_digit c \<Longrightarrow> 0 \<le> a \<Longrightarrow> 0 \<le> foldl (\<lambda>a c. 10 * a + digit_val c) a s"
proof (induction s arbitrary: a)
  case Nil
  then show ?case by simp
next
  case (Cons c s)
  have "0 \<le> 10 * a + digit_val c"
    using Cons.prems is_ascii_digit_val [of c] by simp
  then show ?case using Cons by simp
qed

lemma digits_value_nonneg: "digits_ok s \<Longrightarrow> 0 \<le> digits_value s"
  unfolding digits_value_def
  by (rule foldl_digits_nonneg) (use digits_ok_chars in fastforce, simp)

lemma isdigit_char_not_space: "isdigit_char c \<Longrightarrow> \<not> isspace c"
  by (auto simp: isdigit_char_def isspace_def)

lemma isdigit_char_not_sign: "isdigit_char c \<Longrightarrow> c \<noteq> CHR ''-'' \<and> c \<noteq> CHR ''+''"
  by (auto simp: isdigit_char_def)

lemma isdigit_py_int_nonneg:
  assumes "isdigit tok" "py_int tok = Some count"
  shows "0 \<le> count"
proof -
  from assms(1) have ne: "tok \<noteq> []" and all: "list_all isdigit_char tok"
    by (simp_all add: isdigit_def)
  have "isdigit_char (hd tok)" "isdigit_char (last tok)"
    using ne all by (simp_all add: list_all_iff)
  then have s: "strip tok = tok" and sg: "hd tok \<noteq> CHR ''-''" "hd tok \<noteq> CHR ''+''"
    using ne isdigit_char_not_space isdigit_char_not_sign by (simp_all add: strip_clean)
  from assms(2) have "digits_ok tok" and "count = digits_value tok"
    using s sg ne by (auto simp: py_int_def Let_def split: if_splits)
  then show ?thesis using digits_value_nonneg by simp
qed

section \<open>The parser on the text of a node\<close>

lemma parse_block_from_command_entry:
  "index < length lines \<Longrightarrow> \<not> startswith (lines ! index) ''loop'' \<Longrightarrow>
   lines ! index \<noteq> ''end'' \<Longrightarrow>
   parse_block_from conv lines index result =
     (case command_entry conv (lines ! index) of
        Inl e \<Rightarrow> Inl e
      | Inr entry \<Rightarrow> parse_block_from conv lines (index + 1) (result @ [entry]))"
  by (subst parse_block_from.simps)
     (simp add: Let_def command_entry_def split: list.splits option.splits sum.splits)

lemma parse_block_from_loop_header:
  "index < length lines \<Longrightarrow> startswith (lines ! index) ''loop'' \<Longrightarrow>
   length (split_ws (lines ! index)) = 2 \<Longrightarrow>
   parse_block_from conv lines index result =
     (case loop_header_count (lines ! index) of
        None \<Rightarrow> Inl ValueError
      | Some count \<Rightarrow>
          (case parse_block_from conv lines (index + 1) [] of
             Inl e \<Rightarrow> Inl e
           | Inr (block, index') \<Rightarrow>
               (case repeat block count of
                  Inl e \<Rightarrow> Inl e
                | Inr copies \<Rightarrow> parse_block_from conv lines index' (result @ copies))))"
  by (subst parse_block_from.simps)
     (auto simp: Let_def loop_header_count_def split: list.splits option.splits)

lemma parse_nodes_from_node:
  assumes step: "\<And>n pre post result lines.
      n \<in> set ns \<Longrightarrow> well_formed n \<Longrightarrow> lines = pre @ script_text n @ post \<Longrightarrow>
      parse_block_from conv lines (length pre) result =
        (case expand_node conv n of
           Inl e \<Rightarrow> Inl e
         | Inr cs \<Rightarrow> parse_block_from conv lines (length pre + length (script_text n)) (result @ cs))"
  shows "list_all well_formed ns \<Longrightarrow> lines = pre @ concat (map script_text ns) @ post \<Longrightarrow>
      parse_block_from conv lines (length pre) result =
        (case collect (map (expand_node conv) ns) of
           Inl e \<Rightarrow> Inl e
         | Inr cs \<Rightarrow>
             parse_block_from conv lines
               (length pre + length (concat (map script_text ns))) (result @ cs))"
  using step
proof (induction ns arbitrary: pre result)
  case Nil
  then show ?case by simp
next
  case (Cons n ns)
  let ?rest = "concat (map script_text ns)"
  have wf: "well_formed n" "list_all well_formed ns" using Cons.prems(1) by simp_all
  have l1: "lines = pre @ script_text n @ (?rest @ post)" using Cons.prems(2) by simp
  have l2: "lines = (pre @ script_text n) @ ?rest @ post" using Cons.prems(2) by simp
  have first: "parse_block_from conv lines (length pre) result =
        (case expand_node conv n of
           Inl e \<Rightarrow> Inl e
         | Inr cs \<Rightarrow> parse_block_from conv lines (length pre + length (script_text n)) (result @ cs))"
    by (rule Cons.prems(3) [OF _ wf(1) l1]) simp
  have others: "parse_block_from conv lines (length (pre @ script_text n)) r =
        (case collect (map (expand_node conv) ns) of
           Inl e \<Rightarrow> Inl e
         | Inr cs \<Rightarrow>
             parse_block_from conv lines
               (length (pre @ script_text n) + length ?rest) (r @ cs))" for r
    by (rule Cons.IH [OF wf(2) l2]) (rule Cons.prems(3), simp_all)
  show ?case
  proof (cases "expand_node conv n")
    case (Inl e)
    then show ?thesis using first by simp
  next
    case (Inr a)
    then have "parse_block_from conv lines (length pre) result =
                 parse_block_from conv lines (length (pre @ script_text n)) (result @ a)"
      using first by simp
    also have "\<dots> = (case collect (map (expand_node conv) ns) of
           Inl e \<Rightarrow> Inl e
         | Inr cs \<Rightarrow>
             parse_block_from conv lines
               (length (pre @ script_text n) + length ?rest) ((result @ a) @ cs))"
      by (rule others)
    finally show ?thesis using Inr by (simp add: add.assoc split: sum.splits)
  qed
qed

lemma parse_node:
  "well_formed n \<Longrightarrow> lines = pre @ script_text n @ post \<Longrightarrow>
   parse_block_from conv lines (length pre) result =
     (case expand_node conv n of
        Inl e \<Rightarrow> Inl e
      | Inr cs \<Rightarrow> parse_block_from conv lines (length pre + length (script_text n)) (result @ cs))"
proof (induction n arbitrary: pre post result lines)
  case (CommandNode line)
  have i: "length pre < length lines" and l: "lines ! length pre = line"
    using CommandNode.prems(2) by simp_all
  have "parse_block_from conv lines (length pre) result =
     (case command_entry conv (lines ! length pre) of
        Inl e \<Rightarrow> Inl e
      | Inr entry \<Rightarrow> parse_block_from conv lines (length pre + 1) (result @ [entry]))"
    by (rule parse_block_from_command_entry [OF i]) (use CommandNode.prems(1) l in simp_all)
  then show ?case using l by (simp split: sum.splits)
next
  case (LoopNode header count body)
  let ?b = "concat (map script_text body)"
  have wf: "startswith header ''loop''" "length (split_ws header) = 2"
    "case loop_header_count header of None \<Rightarrow> True | Some k \<Rightarrow> count = k"
    "list_all well_formed body"
    using LoopNode.prems(1) by simp_all
  have lines: "lines = pre @ header # ?b @ ''end'' # post"
    using LoopNode.prems(2) by simp
  have i: "length pre < length lines" and l: "lines ! length pre = header"
    using lines by simp_all
  have head: "parse_block_from conv lines (length pre) result =
     (case loop_header_count (lines ! length pre) of
        None \<Rightarrow> Inl ValueError
      | Some count \<Rightarrow>
          (case parse_block_from conv lines (length pre + 1) [] of
             Inl e \<Rightarrow> Inl e
           | Inr (block, index') \<Rightarrow>
               (case repeat block count of
                  Inl e \<Rightarrow> Inl e
                | Inr copies \<Rightarrow> parse_block_from conv lines index' (result @ copies))))"
    by (rule parse_block_from_loop_header [OF i]) (use wf l in simp_all)
  have l2: "lines = (pre @ [header]) @ ?b @ (''end'' # post)" using lines by simp
  have inner: "parse_block_from conv lines (length (pre @ [header])) [] =
        (case collect (map (expand_node conv) body) of
           Inl e \<Rightarrow> Inl e
         | Inr cs \<Rightarrow>
             parse_block_from conv lines (length (pre @ [header]) + length ?b) ([] @ cs))"
    by (rule parse_nodes_from_node [OF _ wf(4) l2]) (rule LoopNode.IH, assumption+)
  have e1: "length (pre @ [header]) + length ?b < length lines" using lines by simp
  have e2: "lines ! (length (pre @ [header]) + length ?b) = ''end''"
    using l2 by (simp add: nth_append)
  have closing: "parse_block_from conv lines (length (pre @ [header]) + length ?b) cs =
                   Inr (cs, length (pre @ [header]) + length ?b + 1)" for cs
    by (rule parse_block_from_end [OF e1 e2])
  show ?case
  proof (cases "loop_header_count header")
    case None
    then show ?thesis using head l by simp
  next
    case (Some k)
    then have k: "count = k" using wf(3) by simp
    show ?thesis
    proof (cases "collect (map (expand_node conv) body)")
      case (Inl e)
      then show ?thesis using head l Some inner by simp
    next
      case (Inr block)
      have "parse_block_from conv lines (length pre + 1) [] =
              Inr (block, length (pre @ [header]) + length ?b + 1)"
        using inner Inr closing by simp
      then show ?thesis using head l Some Inr k by (simp add: add.assoc split: sum.splits)
    qed
  qed
qed





lemma parse_block_tree:
  assumes "list_all well_formed nodes"
  shows "parse_block_from conv (concat (map script_text nodes)) 0 [] =
           (case collect (map (expand_node conv) nodes) of
              Inl e \<Rightarrow> Inl e
            | Inr cs \<Rightarrow> Inr (cs, length (concat (map script_text nodes))))"
proof -
  let ?lines = "concat (map script_text nodes)"
  have l: "?lines = [] @ concat (map script_text nodes) @ []" by simp
  have raw: "parse_block_from conv ?lines (length ([] :: string list)) [] =
        (case collect (map (expand_node conv) nodes) of
           Inl e \<Rightarrow> Inl e
         | Inr cs \<Rightarrow>
             parse_block_from conv ?lines
               (length ([] :: string list) + length (concat (map script_text nodes))) ([] @ cs))"
    by (rule parse_nodes_from_node [OF _ assms l]) (rule parse_node)
  have fin: "parse_block_from conv ?lines (length ?lines) cs = Inr (cs, length ?lines)" for cs
    by (rule parse_block_from_done) simp
  show ?thesis
  proof (cases "collect (map (expand_node conv) nodes)")
    case (Inl x)
    then show ?thesis using raw by simp
  next
    case (Inr cs)
    then show ?thesis using raw fin [of cs] by simp
  qed
qed

lemma parse_commands_tree:
  assumes "list_all well_formed nodes"
    and "script_lines script = concat (map script_text nodes)"
    and "parse_commands nan conv script = Inr (Some commands, errs)"
  shows "collect (map (expand_node conv) nodes) = Inr commands"
proof -
  from assms(3) obtain idx where
    "parse_block_from conv (script_lines script) 0 [] = Inr (commands, idx)"
    by (auto simp: parse_commands_def parse_block_def split: sum.splits if_splits prod.splits)
  then show ?thesis
    using parse_block_tree [OF assms(1), of conv] assms(2) by (simp split: sum.splits)
qed





lemma parse_commands_validated:
  "parse_commands nan conv script = Inr (Some commands, errs) \<Longrightarrow> check_syntax script = Inr []"
  by (auto simp: parse_commands_def split: sum.splits if_splits prod.splits)

section \<open>The reply of \<^verbatim>\<open>TCPClient.query\<close>\<close>

lemma query_malformed_example:
  "TCPClient_query (Inr ''err|resp'') = (ErrStr ''Malformed response'', ''err|resp'', [])"
  by code_simp

lemma query_malformed:
  "length (split_on (CHR ''|'') (strip received)) \<noteq> 3 \<Longrightarrow>
   TCPClient_query (Inr received) = (ErrStr ''Malformed response'', strip received, [])"
  by (simp add: TCPClient_query_def Let_def)

lemma query_three_fields:
  "split_on (CHR ''|'') (strip received) = [a, b, c] \<Longrightarrow>
   TCPClient_query (Inr received) =
     (ErrList [if a = ''None'' then '''' else a],
      (if b = ''None'' then '''' else b),
      (if c = ''None'' then [] else split_on (CHR '','') c))"
  by (simp add: TCPClient_query_def Let_def)

text \<open>
  C1. On the wire text \<^verbatim>\<open>None|OK|1,2,3\<close> the reply has three fields, and \<^verbatim>\<open>query\<close> returns
  the response \<^verbatim>\<open>OK\<close> and the variables \<^verbatim>\<open>1\<close>, \<^verbatim>\<open>2\<close>, \<^verbatim>\<open>3\<close>; its first component is
  the one-element list holding the empty string, not the empty string.
\<close>

theorem query_error_is_list:
  "TCPClient_query (Inr ''None|OK|1,2,3'') = (ErrList [''''], ''OK'', [''1'', ''2'', ''3''])"
  by code_simp

section \<open>The registry entry \<^verbatim>\<open>xy.Set\<close>\<close>

lemma registry_xy_Set:
  "registry_lookup ''xy.Set'' =
     Some \<lparr>func = SI setZ, args = [
       (''x (m)'', \<lparr>arg_type = np_float64, arg_default = FloatLit ''0.0'', user = True\<rparr>),
       (''y (m)'', \<lparr>arg_type = np_float64, arg_default = FloatLit ''0.0'', user = True\<rparr>)]\<rparr>"
  by (simp add: registry_lookup_def FUNCTION_REGISTRY_def)

lemma xy_Set_line:
  assumes "x \<noteq> []" "y \<noteq> []" "\<forall>c\<in>set x. \<not> isspace c" "\<forall>c\<in>set y. \<not> isspace c"
  shows "script_lines (''xy.Set '' @ x @ '' '' @ y) = [''xy.Set '' @ x @ '' '' @ y]"
    and "split_ws (''xy.Set '' @ x @ '' '' @ y) = [''xy.Set'', x, y]"
    and "\<not> startswith (''xy.Set '' @ x @ '' '' @ y) ''loop''"
    and "''xy.Set '' @ x @ '' '' @ y \<noteq> ''end''"
proof -
  let ?s = "''xy.Set '' @ x @ '' '' @ y"
  have nb: "\<forall>c\<in>set ?s. \<not> is_linebreak c"
  proof
    fix c assume "c \<in> set ?s"
    then consider "c \<in> set ''xy.Set ''" | "c \<in> set x" | "c = CHR '' ''" | "c \<in> set y" by auto
    then show "\<not> is_linebreak c"
    proof cases
      case 1 then show ?thesis by (auto simp: is_linebreak_def)
    next
      case 2 then show ?thesis using assms(3) is_linebreak_isspace by blast
    next
      case 3 then show ?thesis by (simp add: is_linebreak_def)
    next
      case 4 then show ?thesis using assms(4) is_linebreak_isspace by blast
    qed
  qed
  have h: "\<not> isspace (hd ?s)" by (simp add: isspace_def)
  have "last ?s = last y" using assms(2) by simp
  then have l: "\<not> isspace (last ?s)" using assms(2,4) by simp
  show "script_lines ?s = [?s]"
    by (rule single_line_script [OF _ nb h l]) simp
  have w: "\<forall>c\<in>set ''xy.Set''. \<not> isspace c" by (simp add: isspace_def)
  have "split_ws (''xy.Set'' @ '' '' @ x @ '' '' @ y) = [''xy.Set'', x, y]"
    by (rule split_ws_three_words [OF _ assms(1,2) w assms(3,4)]) simp
  then show "split_ws ?s = [''xy.Set'', x, y]" by simp
  show "\<not> startswith ?s ''loop''" by (simp add: startswith_def)
  show "?s \<noteq> ''end''" by simp
qed

lemma xy_Set_check:
  assumes "x \<noteq> []" "y \<noteq> []" "\<forall>c\<in>set x. \<not> isspace c" "\<forall>c\<in>set y. \<not> isspace c"
  shows "check_syntax (''xy.Set '' @ x @ '' '' @ y) = Inr []"
  using xy_Set_line [OF assms]
  by (simp add: check_syntax_def check_line_def registry_xy_Set expected_user_args_def)

lemma xy_Set_parse:
  assumes "x \<noteq> []" "y \<noteq> []" "\<forall>c\<in>set x. \<not> isspace c" "\<forall>c\<in>set y. \<not> isspace c"
    and "conv np_float64 x = Inr a" "conv np_float64 y = Inr b"
  shows "parse_commands nan conv (''xy.Set '' @ x @ '' '' @ y) =
           (if nan
            then Inr (Some [\<lparr>cmd = ''xy.Set'', bound_func = SI setZ,
                              arg_values = [Converted a, Converted b]\<rparr>], [])
            else Inl AttributeError)"
proof -
  let ?s = "''xy.Set '' @ x @ '' '' @ y"
  let ?e = "\<lparr>cmd = ''xy.Set'', bound_func = SI setZ, arg_values = [Converted a, Converted b]\<rparr>"
  note l = xy_Set_line [OF assms(1-4)]
  have r: "resolve_args conv
             [(''x (m)'', \<lparr>arg_type = np_float64, arg_default = FloatLit ''0.0'', user = True\<rparr>),
              (''y (m)'', \<lparr>arg_type = np_float64, arg_default = FloatLit ''0.0'', user = True\<rparr>)]
             [x, y] 0 [] = Inr [Converted a, Converted b]"
    using assms(5,6) by simp
  have 2: "parse_block_from conv [?s] (0 + 1) ([] @ [?e]) = Inr ([?e], Suc 0)"
    by (subst parse_block_from_done) simp_all
  have "parse_block_from conv [?s] 0 [] =
          (case resolve_args conv
                  (args \<lparr>func = SI setZ, args = [
                     (''x (m)'', \<lparr>arg_type = np_float64, arg_default = FloatLit ''0.0'', user = True\<rparr>),
                     (''y (m)'', \<lparr>arg_type = np_float64, arg_default = FloatLit ''0.0'', user = True\<rparr>)]\<rparr>)
                  [x, y] 0 [] of
             Inl e \<Rightarrow> Inl e
           | Inr vs \<Rightarrow>
               parse_block_from conv [?s] (0 + 1)
                 ([] @ [\<lparr>cmd = ''xy.Set'',
                          bound_func = func \<lparr>func = SI setZ, args = [
                     (''x (m)'', \<lparr>arg_type = np_float64, arg_default = FloatLit ''0.0'', user = True\<rparr>),
                     (''y (m)'', \<lparr>arg_type = np_float64, arg_default = FloatLit ''0.0'', user = True\<rparr>)]\<rparr>,
                          arg_values = vs\<rparr>]))"
    by (rule parse_block_from_command) (simp_all only: l registry_xy_Set nth_Cons_0 length_Cons list.size, simp_all)
  then have 1: "parse_block_from conv [?s] 0 [] = Inr ([?e], Suc 0)"
    using r 2 by simp
  show ?thesis
    using xy_Set_check [OF assms(1-4)] 1 l(1)
    by (simp add: parse_commands_def parse_block_def)
qed

text \<open>
  C2. The registry entry \<^verbatim>\<open>xy.Set\<close> declares two userSupplied arguments and binds
  \<^verbatim>\<open>ScriptingInterface.setZ\<close>, which takes one parameter. Every script line
  \<^verbatim>\<open>xy.Set x y\<close> (two tokens without whitespace) therefore passes validation, and the
  call of the bound capability with the two resolved arguments raises TypeError: when both
  tokens convert, the run on an interface that has connected ends with that exception after
  the status \<^verbatim>\<open>Running\<close>, with no log entry (on an interface that never connected the
  expansion raises AttributeError before that).
\<close>

theorem xy_Set_validates_but_raises:
  assumes "x \<noteq> []" "y \<noteq> []" "\<forall>c\<in>set x. \<not> isspace c" "\<forall>c\<in>set y. \<not> isspace c"
  shows "registry_lookup ''xy.Set'' =
           Some \<lparr>func = SI setZ, args = [
             (''x (m)'', \<lparr>arg_type = np_float64, arg_default = FloatLit ''0.0'', user = True\<rparr>),
             (''y (m)'', \<lparr>arg_type = np_float64, arg_default = FloatLit ''0.0'', user = True\<rparr>)]\<rparr> \<and>
         py_arity (SI setZ) = Some 1 \<and>
         check_syntax (''xy.Set '' @ x @ '' '' @ y) = Inr [] \<and>
         invoke dev \<lparr>cmd = ''xy.Set'', bound_func = SI setZ, arg_values = [va, vb]\<rparr> d
           = (Inl TypeError, d) \<and>
         (conv_of E np_float64 x = Inr a \<and> conv_of E np_float64 y = Inr b \<and> \<not> cancelScript 0
            \<longrightarrow> runScriptThread_run E cancelScript (''xy.Set '' @ x @ '' '' @ y) st
                  = (if has_nanonis E
                     then st\<lparr>device := device st,
                            invoked := invoked st @
                              [\<lparr>cmd = ''xy.Set'', bound_func = SI setZ,
                                 arg_values = [Converted a, Converted b]\<rparr>],
                            raised := Some TypeError,
                            emitted := emitted st @ [scriptStatus ''Running'']\<rparr>
                     else st\<lparr>raised := Some AttributeError\<rparr>))"
proof -
  have i: "\<And>dev va vb d. invoke dev \<lparr>cmd = ''xy.Set'', bound_func = SI setZ, arg_values = [va, vb]\<rparr> d
           = (Inl TypeError, d)"
    by (simp add: invoke_def)
  have run: "runScriptThread_run E cancelScript (''xy.Set '' @ x @ '' '' @ y) st
                  = (if has_nanonis E
                     then st\<lparr>device := device st,
                            invoked := invoked st @
                              [\<lparr>cmd = ''xy.Set'', bound_func = SI setZ,
                                 arg_values = [Converted a, Converted b]\<rparr>],
                            raised := Some TypeError,
                            emitted := emitted st @ [scriptStatus ''Running'']\<rparr>
                     else st\<lparr>raised := Some AttributeError\<rparr>)"
    if "conv_of E np_float64 x = Inr a" "conv_of E np_float64 y = Inr b" "\<not> cancelScript 0"
    using xy_Set_parse [where conv = "conv_of E" and nan = "has_nanonis E", OF assms that(1,2)]
      that(3)
    by (simp add: runScriptThread_run_def runScriptThread_execute_def i Let_def)
  show ?thesis
    using registry_xy_Set xy_Set_check [OF assms] i run by simp
qed

theorem xy_Set_validates_but_raises_witness:
  "check_syntax ''xy.Set 1e-9 2e-9'' = Inr [] \<and>
   runScriptThread_run sample_externals (\<lambda>i. False) ''xy.Set 1e-9 2e-9'' (initial_state 0)
     = \<lparr>device = 0, emitted = [scriptStatus ''Running''],
        invoked = [\<lparr>cmd = ''xy.Set'', bound_func = SI setZ,
                     arg_values = [Converted ''1e-9'', Converted ''2e-9'']\<rparr>],
        raised = Some TypeError\<rparr>"
proof -
  have x: "''1e-9'' \<noteq> []" "\<forall>c\<in>set ''1e-9''. \<not> isspace c"
    by (simp_all add: isspace_def)
  have y: "''2e-9'' \<noteq> []" "\<forall>c\<in>set ''2e-9''. \<not> isspace c"
    by (simp_all add: isspace_def)
  have c: "conv_of sample_externals np_float64 ''1e-9'' = Inr ''1e-9''"
          "conv_of sample_externals np_float64 ''2e-9'' = Inr ''2e-9''"
          "has_nanonis sample_externals"
    by (simp_all add: sample_externals_def)
  from xy_Set_validates_but_raises [OF x(1) y(1) x(2) y(2),
         where E = sample_externals and a = "''1e-9''" and b = "''2e-9''"
           and cancelScript = "\<lambda>i. False" and st = "initial_state 0"
           and dev = "dev_of sample_externals" and d = 0
           and va = "Converted ''1e-9''" and vb = "Converted ''2e-9''"] c
  show ?thesis by (simp add: initial_state_def)
qed

section \<open>Loop lines accepted by the validator\<close>

lemma two_tokens:
  assumes "length xs = 2" "isdigit (xs ! 1)"
  shows "\<exists>u tok. xs = [u, tok] \<and> isdigit tok \<and> (\<forall>count. py_int tok = Some count \<longrightarrow> 0 \<le> count)"
proof -
  from assms(1) obtain u tok where xs: "xs = [u, tok]"
    by (auto simp: numeral_2_eq_2 length_Suc_conv)
  with assms(2) have "isdigit tok" by simp
  then show ?thesis using xs isdigit_py_int_nonneg by blast
qed

lemma check_line_stack_other:
  "\<not> startswith line ''loop'' \<Longrightarrow> check_line n line (errors, stack) = Inr (errors', stack') \<Longrightarrow>
   stack' = stack \<or> stack' = butlast stack"
  by (auto simp: check_line_cases split: if_splits list.splits option.splits)

lemma check_line_loop_branch:
  "startswith line ''loop'' \<Longrightarrow>
   check_line n line (errors, stack) =
     (if length (split_ws line) \<noteq> 2 \<or> \<not> isdigit (split_ws line ! 1)
      then Inr (errors @ [InvalidLoop n line], stack)
      else Inr (errors, stack @ [''loop'']))"
  by (simp add: check_line_cases)

lemma pushed_is_loop_line:
  assumes "check_line n line (errors, stack) = Inr (errors', stack @ [''loop''])"
  shows "startswith line ''loop''"
proof (rule ccontr)
  assume "\<not> startswith line ''loop''"
  from check_line_stack_other [OF this assms]
  have "length (stack @ [''loop'']) = length stack \<or>
        length (stack @ [''loop'']) = length (butlast stack)" by metis
  then show False by simp
qed

text \<open>
  The line \<^verbatim>\<open>loop 0\<close> is accepted: \<^verbatim>\<open>str.isdigit\<close> holds of \<^verbatim>\<open>0\<close>, which is not a
  positive integer literal. The script \<^verbatim>\<open>loop 0 / wait 1 / end\<close> validates without error
  and expands, with the count 0, to the empty sequence.
\<close>

theorem loop_zero_accepted:
  "check_line 1 ''loop 0'' ([], []) = Inr ([], [''loop'']) \<and>
   split_ws ''loop 0'' = [''loop'', ''0''] \<and>
   py_int ''0'' = Some 0 \<and>
   \<not> positive_int_literal ''0'' \<and>
   check_syntax ''loop 0\<newline>wait 1\<newline>end'' = Inr [] \<and>
   parse_commands (has_nanonis sample_externals) (conv_of sample_externals)
       ''loop 0\<newline>wait 1\<newline>end'' = Inr (Some [], [])"
proof -
  have 1: "check_line 1 ''loop 0'' ([], []) = Inr ([], [''loop''])" by code_simp
  have 2: "split_ws ''loop 0'' = [''loop'', ''0'']" by code_simp
  have 3: "py_int ''0'' = Some 0" by code_simp
  have 4: "\<not> positive_int_literal ''0''" by (simp add: positive_int_literal_def 3)
  have 5: "check_syntax ''loop 0\<newline>wait 1\<newline>end'' = Inr []" by code_simp
  have 6: "parse_commands (has_nanonis sample_externals) (conv_of sample_externals)
               ''loop 0\<newline>wait 1\<newline>end''
             = Inr (Some [], [])" by code_simp
  from 1 2 3 4 5 6 show ?thesis by blast
qed

text \<open>
  C3 (amended). \<^verbatim>\<open>check_syntax\<close> accepts a loop line (pushes an open-loop marker and records
  no error) only if the line begins with \<^verbatim>\<open>loop\<close>, has exactly two whitespace-separated
  tokens, and its second token is a non-empty string of digits (\<^verbatim>\<open>str.isdigit\<close>); whenever
  \<^verbatim>\<open>int\<close> converts such a token, the count is not negative. Hence in every validated
  script every loop count that \<^verbatim>\<open>int\<close> yields is greater than or equal to zero; zero is
  accepted.
\<close>

theorem loop_line_accepted_only_if:
  "(check_line n line (errors, stack) = Inr (errors', stack @ [''loop''])
      \<longrightarrow> errors' = errors \<and> startswith line ''loop'' \<and>
          (\<exists>u tok. split_ws line = [u, tok] \<and> isdigit tok \<and>
                    (\<forall>count. py_int tok = Some count \<longrightarrow> 0 \<le> count))) \<and>
   (check_syntax script = Inr [] \<and> line \<in> set (script_lines script) \<and> startswith line ''loop''
      \<longrightarrow> (\<exists>u tok. split_ws line = [u, tok] \<and> isdigit tok \<and>
                    (\<forall>count. py_int tok = Some count \<longrightarrow> 0 \<le> count)))"
proof (intro conjI impI)
  assume h: "check_line n line (errors, stack) = Inr (errors', stack @ [''loop''])"
  have sw: "startswith line ''loop''" using h by (rule pushed_is_loop_line)
  have ok: "length (split_ws line) = 2 \<and> isdigit (split_ws line ! 1)"
  proof (rule ccontr)
    assume "\<not> ?thesis"
    then have "check_line n line (errors, stack) = Inr (errors @ [InvalidLoop n line], stack)"
      using sw by (simp add: check_line_loop_branch)
    with h show False by simp
  qed
  then have "check_line n line (errors, stack) = Inr (errors, stack @ [''loop''])"
    using sw by (simp add: check_line_loop_branch)
  with h show "errors' = errors" by simp
  show "startswith line ''loop''" by (rule sw)
  show "\<exists>u tok. split_ws line = [u, tok] \<and> isdigit tok \<and>
                 (\<forall>count. py_int tok = Some count \<longrightarrow> 0 \<le> count)"
    using ok two_tokens by blast
next
  assume a: "check_syntax script = Inr [] \<and> line \<in> set (script_lines script) \<and>
             startswith line ''loop''"
  then obtain xs ys where sp: "script_lines script = xs @ line # ys"
    by (auto simp: in_set_conv_decomp)
  from a have "check_loop 1 (xs @ line # ys) ([], []) = Inr ([], [])"
    by (simp add: check_syntax_clean sp)
  from clean_scan_line [OF this] obtain s1 s2 where
    c: "check_line (1 + length xs) line ([], s1) = Inr ([], s2)" by blast
  have ok: "length (split_ws line) = 2 \<and> isdigit (split_ws line ! 1)"
  proof (rule ccontr)
    assume "\<not> ?thesis"
    then have "check_line (1 + length xs) line ([], s1)
                 = Inr ([] @ [InvalidLoop (1 + length xs) line], s1)"
      using a by (simp add: check_line_loop_branch)
    with c show False by simp
  qed
  then show "\<exists>u tok. split_ws line = [u, tok] \<and> isdigit tok \<and>
                 (\<forall>count. py_int tok = Some count \<longrightarrow> 0 \<le> count)"
    using two_tokens by blast
qed

theorem loop_line_accepted_only_if_witness:
  "check_line 1 ''loop 3'' ([], []) = Inr ([], [] @ [''loop'']) \<and>
   check_syntax ''loop 3\<newline>wait 1\<newline>end'' = Inr [] \<and>
   ''loop 3'' \<in> set (script_lines ''loop 3\<newline>wait 1\<newline>end'') \<and>
   startswith ''loop 3'' ''loop'' \<and>
   (\<exists>u tok. split_ws ''loop 3'' = [u, tok] \<and> isdigit tok)"
proof -
  have 1: "check_line 1 ''loop 3'' ([], []) = Inr ([], [] @ [''loop''])" by code_simp
  have 2: "check_syntax ''loop 3\<newline>wait 1\<newline>end'' = Inr []" by code_simp
  have 3: "''loop 3'' \<in> set (script_lines ''loop 3\<newline>wait 1\<newline>end'')" by code_simp
  have 4: "startswith ''loop 3'' ''loop''" by code_simp
  from loop_line_accepted_only_if
         [where n = 1 and line = "''loop 3''" and errors = "[]" and stack = "[]"
            and errors' = "[]" and script = "''loop 3\<newline>wait 1\<newline>end''"] 1
  have "\<exists>u tok. split_ws ''loop 3'' = [u, tok] \<and> isdigit tok" by blast
  with 1 2 3 4 show ?thesis by blast
qed

section \<open>Which lines are loop directives\<close>

text \<open>
  The first token of \<^verbatim>\<open>loopx 2\<close> is not \<^verbatim>\<open>loop\<close> and the line is not \<^verbatim>\<open>end\<close>, yet the
  validator opens a loop for it; for \<^verbatim>\<open>looping\<close> it records an invalid loop syntax error.
  The test is \<^verbatim>\<open>line.startswith("loop")\<close>, in the validator and in the parser alike.
\<close>

theorem loop_prefix_is_loop_directive:
  "split_ws ''loopx 2'' = [''loopx'', ''2''] \<and> ''loopx'' \<noteq> ''loop'' \<and> ''loopx 2'' \<noteq> ''end'' \<and>
   check_line 1 ''loopx 2'' ([], []) = Inr ([], [''loop'']) \<and>
   check_line 1 ''looping'' ([], []) = Inr ([InvalidLoop 1 ''looping''], []) \<and>
   check_syntax ''loopx 2\<newline>wait 1\<newline>end'' = Inr []"
proof -
  have 1: "split_ws ''loopx 2'' = [''loopx'', ''2'']" by code_simp
  have 2: "''loopx'' \<noteq> ''loop''" "''loopx 2'' \<noteq> ''end''" by simp_all
  have 3: "check_line 1 ''loopx 2'' ([], []) = Inr ([], [''loop''])" by code_simp
  have 4: "check_line 1 ''looping'' ([], []) = Inr ([InvalidLoop 1 ''looping''], [])" by code_simp
  have 5: "check_syntax ''loopx 2\<newline>wait 1\<newline>end'' = Inr []" by code_simp
  from 1 2 3 4 5 show ?thesis by blast
qed

text \<open>
  C4 (amended). The validator classifies a line as a loop directive exactly when the line
  begins with the characters \<^verbatim>\<open>loop\<close>: such a line either opens a loop or records an
  invalid loop syntax error. Every line that is not exactly \<^verbatim>\<open>end\<close> and does not begin
  with \<^verbatim>\<open>loop\<close> is treated as a command: its first token is looked up in the registry
  and the number of remaining tokens is compared with the number of userSupplied arguments;
  for such a line no invalid loop syntax error is recorded and no loop is opened.
\<close>

theorem line_classified_by_prefix:
  "(startswith line ''loop''
      \<longrightarrow> check_line n line (errors, stack) = Inr (errors, stack @ [''loop'']) \<or>
          check_line n line (errors, stack) = Inr (errors @ [InvalidLoop n line], stack)) \<and>
   (\<not> startswith line ''loop'' \<and> line \<noteq> ''end'' \<and> split_ws line = cmd_name # user_values
      \<longrightarrow> check_line n line (errors, stack) =
            Inr (errors @
                   (case registry_lookup cmd_name of
                      None \<Rightarrow> [UnknownCommand n line]
                    | Some ci \<Rightarrow>
                        if length user_values \<noteq> expected_user_args ci
                        then [WrongArgCount n cmd_name (expected_user_args ci)
                                (int (length user_values)) line]
                        else []),
                 stack))"
  by (simp add: check_line_cases split: option.splits)

theorem line_classified_by_prefix_witness:
  "startswith ''loop 2'' ''loop'' \<and>
   check_line 1 ''loop 2'' ([], []) = Inr ([], [''loop'']) \<and>
   \<not> startswith ''wait 1 2'' ''loop'' \<and> ''wait 1 2'' \<noteq> ''end'' \<and>
   split_ws ''wait 1 2'' = [''wait'', ''1'', ''2''] \<and>
   check_line 7 ''wait 1 2'' ([], [''loop'']) =
     Inr ([WrongArgCount 7 ''wait'' 1 2 ''wait 1 2''], [''loop''])"
proof -
  have 1: "startswith ''loop 2'' ''loop''" by code_simp
  have 2: "check_line 1 ''loop 2'' ([], []) \<noteq> Inr ([] @ [InvalidLoop 1 ''loop 2''], [])"
    by code_simp
  have 3: "\<not> startswith ''wait 1 2'' ''loop''" "''wait 1 2'' \<noteq> ''end''"
    by (simp_all add: startswith_def)
  have 4: "split_ws ''wait 1 2'' = ''wait'' # [''1'', ''2'']" by code_simp
  have 5: "registry_lookup ''wait'' = Some \<lparr>func = SI wait, args = [
       (''Time (s)'', \<lparr>arg_type = np_uint32, arg_default = IntLit 5, user = True\<rparr>)]\<rparr>"
    by (simp add: registry_lookup_def FUNCTION_REGISTRY_def)
  note t = line_classified_by_prefix
  from t [where line = "''loop 2''" and n = 1 and errors = "[]" and stack = "[]"] 1 2
  have a: "check_line 1 ''loop 2'' ([], []) = Inr ([], [''loop''])" by simp
  from t [where line = "''wait 1 2''" and n = 7 and errors = "[]" and stack = "[''loop'']"
            and cmd_name = "''wait''" and user_values = "[''1'', ''2'']"] 3 4
  have b: "check_line 7 ''wait 1 2'' ([], [''loop'']) =
     Inr ([WrongArgCount 7 ''wait'' 1 2 ''wait 1 2''], [''loop''])"
    by (simp add: 5 expected_user_args_def)
  from 1 a 3 4 b show ?thesis by simp
qed

section \<open>Validation is exhaustive and blocks the run\<close>

lemma check_line_stack_length:
  "check_line n line (errors, stack) = Inr (errors', stack') \<Longrightarrow>
   length stack' = open_after (length stack) [line]"
  by (auto simp: check_line_cases split: if_splits list.splits option.splits)

lemma open_after_append: "open_after k (xs @ ys) = open_after (open_after k xs) ys"
  by (induction xs arbitrary: k) simp_all

lemma check_loop_stack_length:
  "check_loop n ls (errors, stack) = Inr (errors', stack') \<Longrightarrow>
   length stack' = open_after (length stack) ls"
proof (induction ls arbitrary: n errors stack)
  case Nil
  then show ?case by simp
next
  case (Cons l ls)
  from Cons.prems obtain e1 s1 where
    1: "check_line n l (errors, stack) = Inr (e1, s1)" and
    2: "check_loop (Suc n) ls (e1, s1) = Inr (errors', stack')"
    by (auto split: sum.splits)
  have "length s1 = open_after (length stack) [l]" using 1 by (rule check_line_stack_length)
  moreover have "length stack' = open_after (length s1) ls" using 2 by (rule Cons.IH)
  ultimately show ?case using open_after_append [of "length stack" "[l]" ls] by simp
qed

lemma script_lines_split_ws: "l \<in> set (script_lines script) \<Longrightarrow> split_ws l \<noteq> []"
  using script_lines_nonspace split_ws_nonempty by blast

lemma scan_decomposed:
  assumes "i < length (script_lines script)"
  shows "\<exists>e1 s1 e2 s2 e3 s3.
           check_loop 1 (take i (script_lines script)) ([], []) = Inr (e1, s1) \<and>
           check_line (Suc i) (script_lines script ! i) (e1, s1) = Inr (e2, s2) \<and>
           check_loop (Suc (Suc i)) (drop (Suc i) (script_lines script)) (e2, s2) = Inr (e3, s3) \<and>
           check_syntax script = Inr (if s3 \<noteq> [] then e3 @ [UnclosedLoop] else e3) \<and>
           set e2 \<subseteq> set e3 \<and>
           length s1 = open_after 0 (take i (script_lines script))"
proof -
  let ?ls = "script_lines script"
  have all: "\<forall>l\<in>set ?ls. split_ws l \<noteq> []" using script_lines_split_ws by blast
  have "\<forall>l\<in>set (take i ?ls). split_ws l \<noteq> []" using all by (meson in_set_takeD)
  from check_loop_total [OF this, of 1 "([], [])"] obtain e1 s1 where
    1: "check_loop 1 (take i ?ls) ([], []) = Inr (e1, s1)" by force
  have "split_ws (?ls ! i) \<noteq> []" using all assms by simp
  from check_line_total [OF this, of "Suc i" "(e1, s1)"] obtain e2 s2 where
    2: "check_line (Suc i) (?ls ! i) (e1, s1) = Inr (e2, s2)" by force
  have "\<forall>l\<in>set (drop (Suc i) ?ls). split_ws l \<noteq> []" using all by (meson in_set_dropD)
  from check_loop_total [OF this, of "Suc (Suc i)" "(e2, s2)"] obtain e3 s3 where
    3: "check_loop (Suc (Suc i)) (drop (Suc i) ?ls) (e2, s2) = Inr (e3, s3)" by force
  have dec: "?ls = take i ?ls @ (?ls ! i) # drop (Suc i) ?ls"
    using assms by (simp add: id_take_nth_drop)
  have len: "length (take i ?ls) = i" using assms by simp
  have "check_loop 1 (take i ?ls @ (?ls ! i) # drop (Suc i) ?ls) ([], []) = Inr (e3, s3)"
    using 1 2 3 len by (simp add: check_loop_append)
  then have whole: "check_loop 1 ?ls ([], []) = Inr (e3, s3)" using dec by simp
  have 4: "check_syntax script = Inr (if s3 \<noteq> [] then e3 @ [UnclosedLoop] else e3)"
    using whole by (simp add: check_syntax_def)
  from check_loop_errors_grow [OF 3] have 5: "set e2 \<subseteq> set e3" by auto
  from check_loop_stack_length [OF 1] have 6: "length s1 = open_after 0 (take i ?ls)" by simp
  show ?thesis using 1 2 3 4 5 6 by blast
qed

lemma recorded:
  assumes "i < length (script_lines script)" "check_syntax script = Inr errors"
    and "\<And>e1 s1 e2 s2. length s1 = open_after 0 (take i (script_lines script)) \<Longrightarrow>
           check_line (Suc i) (script_lines script ! i) (e1, s1) = Inr (e2, s2) \<Longrightarrow> x \<in> set e2"
  shows "x \<in> set errors"
  using scan_decomposed [OF assms(1)]
proof (elim exE conjE)
  fix e1 s1 e2 s2 e3 s3
  assume 2: "check_line (Suc i) (script_lines script ! i) (e1, s1) = Inr (e2, s2)"
    and 4: "check_syntax script = Inr (if s3 \<noteq> [] then e3 @ [UnclosedLoop] else e3)"
    and 5: "set e2 \<subseteq> set e3"
    and 6: "length s1 = open_after 0 (take i (script_lines script))"
  have "x \<in> set e2" using assms(3) [OF 6 2] .
  then have "x \<in> set e3" using 5 by blast
  moreover have "set e3 \<subseteq> set errors" using 4 assms(2) by (auto split: if_splits)
  ultimately show ?thesis by blast
qed

lemma invalid_loop_recorded:
  assumes "i < length (script_lines script)" "check_syntax script = Inr errors"
    and "startswith (script_lines script ! i) ''loop''"
    and "length (split_ws (script_lines script ! i)) \<noteq> 2 \<or>
         \<not> isdigit (split_ws (script_lines script ! i) ! 1)"
  shows "InvalidLoop (Suc i) (script_lines script ! i) \<in> set errors"
  by (rule recorded [OF assms(1,2)]) (use assms(3,4) in \<open>auto simp: check_line_cases\<close>)

lemma end_without_loop_recorded:
  assumes "i < length (script_lines script)" "check_syntax script = Inr errors"
    and "script_lines script ! i = ''end''"
    and "open_after 0 (take i (script_lines script)) = 0"
  shows "EndWithoutLoop (Suc i) ''end'' \<in> set errors"
  by (rule recorded [OF assms(1,2)])
     (use assms(3,4) in \<open>auto simp: check_line_cases startswith_def\<close>)

lemma unknown_command_recorded:
  assumes "i < length (script_lines script)" "check_syntax script = Inr errors"
    and "\<not> startswith (script_lines script ! i) ''loop''" "script_lines script ! i \<noteq> ''end''"
    and "split_ws (script_lines script ! i) = cmd_name # user_values"
    and "registry_lookup cmd_name = None"
  shows "UnknownCommand (Suc i) (script_lines script ! i) \<in> set errors"
  by (rule recorded [OF assms(1,2)]) (use assms(3-6) in \<open>auto simp: check_line_cases\<close>)

lemma wrong_arg_count_recorded:
  assumes "i < length (script_lines script)" "check_syntax script = Inr errors"
    and "\<not> startswith (script_lines script ! i) ''loop''" "script_lines script ! i \<noteq> ''end''"
    and "split_ws (script_lines script ! i) = cmd_name # user_values"
    and "registry_lookup cmd_name = Some ci"
    and "length user_values \<noteq> expected_user_args ci"
  shows "WrongArgCount (Suc i) cmd_name (expected_user_args ci) (int (length user_values))
           (script_lines script ! i) \<in> set errors"
  by (rule recorded [OF assms(1,2)]) (use assms(3-7) in \<open>auto simp: check_line_cases\<close>)

lemma unclosed_loop_recorded:
  assumes "check_syntax script = Inr errors" "open_after 0 (script_lines script) \<noteq> 0"
  shows "UnclosedLoop \<in> set errors"
proof -
  from assms(1) obtain e s where
    1: "check_loop 1 (script_lines script) ([], []) = Inr (e, s)" and
    2: "errors = (if s \<noteq> [] then e @ [UnclosedLoop] else e)"
    by (auto simp: check_syntax_def split: sum.splits prod.splits)
  from check_loop_stack_length [OF 1] assms(2) have "s \<noteq> []" by auto
  then show ?thesis using 2 by simp
qed

lemma syntax_errors_block:
  assumes "check_syntax script = Inr errors" "errors \<noteq> []"
  shows "parse_commands nan conv script = Inr (None, errors)"
    and "runScriptThread_run E cancelScript script st =
           st\<lparr>emitted := emitted st @ [errorMsg errors, scriptStatus ''Syntax errors'']\<rparr>"
  using assms by (simp_all add: parse_commands_def runScriptThread_run_def)

text \<open>
  C5. Validation always returns a list of errors, and the scan does not stop at the first
  one: every line that is a malformed loop directive, an \<^verbatim>\<open>end\<close> met with no open loop, a
  line whose command is unknown or whose number of arguments is wrong has its error, with
  its line number, in the returned list, and so has a loop left open at the end of the
  script. Whenever the list is not empty \<^verbatim>\<open>parse_commands\<close> returns no command sequence,
  and the run only emits the error message and the status \<^verbatim>\<open>Syntax errors\<close>: the device
  state and the list of invoked commands are unchanged.
\<close>

theorem validation_is_exhaustive_and_blocks:
  "\<exists>errors.
     check_syntax script = Inr errors \<and>
     (\<forall>i<length (script_lines script).
        (startswith (script_lines script ! i) ''loop'' \<and>
         (length (split_ws (script_lines script ! i)) \<noteq> 2 \<or>
          \<not> isdigit (split_ws (script_lines script ! i) ! 1))
           \<longrightarrow> InvalidLoop (Suc i) (script_lines script ! i) \<in> set errors) \<and>
        (script_lines script ! i = ''end'' \<and> open_after 0 (take i (script_lines script)) = 0
           \<longrightarrow> EndWithoutLoop (Suc i) ''end'' \<in> set errors) \<and>
        (\<forall>cmd_name user_values.
           \<not> startswith (script_lines script ! i) ''loop'' \<and> script_lines script ! i \<noteq> ''end'' \<and>
           split_ws (script_lines script ! i) = cmd_name # user_values
           \<longrightarrow> (case registry_lookup cmd_name of
                  None \<Rightarrow> UnknownCommand (Suc i) (script_lines script ! i) \<in> set errors
                | Some ci \<Rightarrow>
                    length user_values \<noteq> expected_user_args ci
                    \<longrightarrow> WrongArgCount (Suc i) cmd_name (expected_user_args ci)
                          (int (length user_values)) (script_lines script ! i) \<in> set errors))) \<and>
     (open_after 0 (script_lines script) \<noteq> 0 \<longrightarrow> UnclosedLoop \<in> set errors) \<and>
     (errors \<noteq> []
        \<longrightarrow> parse_commands nan conv script = Inr (None, errors) \<and>
            runScriptThread_run E cancelScript script st
              = st\<lparr>emitted := emitted st @ [errorMsg errors, scriptStatus ''Syntax errors'']\<rparr>)"
proof -
  from check_syntax_total obtain errors where c: "check_syntax script = Inr errors" by blast
  have lines: "\<forall>i<length (script_lines script).
        (startswith (script_lines script ! i) ''loop'' \<and>
         (length (split_ws (script_lines script ! i)) \<noteq> 2 \<or>
          \<not> isdigit (split_ws (script_lines script ! i) ! 1))
           \<longrightarrow> InvalidLoop (Suc i) (script_lines script ! i) \<in> set errors) \<and>
        (script_lines script ! i = ''end'' \<and> open_after 0 (take i (script_lines script)) = 0
           \<longrightarrow> EndWithoutLoop (Suc i) ''end'' \<in> set errors) \<and>
        (\<forall>cmd_name user_values.
           \<not> startswith (script_lines script ! i) ''loop'' \<and> script_lines script ! i \<noteq> ''end'' \<and>
           split_ws (script_lines script ! i) = cmd_name # user_values
           \<longrightarrow> (case registry_lookup cmd_name of
                  None \<Rightarrow> UnknownCommand (Suc i) (script_lines script ! i) \<in> set errors
                | Some ci \<Rightarrow>
                    length user_values \<noteq> expected_user_args ci
                    \<longrightarrow> WrongArgCount (Suc i) cmd_name (expected_user_args ci)
                          (int (length user_values)) (script_lines script ! i) \<in> set errors))"
  proof (intro allI impI conjI)
    fix i assume i: "i < length (script_lines script)"
    {
      assume "startswith (script_lines script ! i) ''loop'' \<and>
         (length (split_ws (script_lines script ! i)) \<noteq> 2 \<or>
          \<not> isdigit (split_ws (script_lines script ! i) ! 1))"
      then show "InvalidLoop (Suc i) (script_lines script ! i) \<in> set errors"
        using invalid_loop_recorded [OF i c] by blast
    }
    {
      assume "script_lines script ! i = ''end'' \<and> open_after 0 (take i (script_lines script)) = 0"
      then show "EndWithoutLoop (Suc i) ''end'' \<in> set errors"
        using end_without_loop_recorded [OF i c] by blast
    }
    {
      fix cmd_name user_values
      assume a: "\<not> startswith (script_lines script ! i) ''loop'' \<and>
                 script_lines script ! i \<noteq> ''end'' \<and>
                 split_ws (script_lines script ! i) = cmd_name # user_values"
      show "case registry_lookup cmd_name of
              None \<Rightarrow> UnknownCommand (Suc i) (script_lines script ! i) \<in> set errors
            | Some ci \<Rightarrow>
                length user_values \<noteq> expected_user_args ci
                \<longrightarrow> WrongArgCount (Suc i) cmd_name (expected_user_args ci)
                      (int (length user_values)) (script_lines script ! i) \<in> set errors"
      proof (cases "registry_lookup cmd_name")
        case None
        then show ?thesis using unknown_command_recorded [OF i c] a by simp
      next
        case (Some ci)
        then show ?thesis using wrong_arg_count_recorded [OF i c] a by simp
      qed
    }
  qed
  have unclosed: "open_after 0 (script_lines script) \<noteq> 0 \<longrightarrow> UnclosedLoop \<in> set errors"
    using unclosed_loop_recorded [OF c] by blast
  have block: "errors \<noteq> []
        \<longrightarrow> parse_commands nan conv script = Inr (None, errors) \<and>
            runScriptThread_run E cancelScript script st
              = st\<lparr>emitted := emitted st @ [errorMsg errors, scriptStatus ''Syntax errors'']\<rparr>"
    using syntax_errors_block [OF c] by blast
  from c lines unclosed block show ?thesis by blast
qed

theorem validation_is_exhaustive_and_blocks_witness:
  "check_syntax ''looping\<newline>wait 1 2\<newline>end\<newline>foo\<newline>loop 3''
     = Inr [InvalidLoop 1 ''looping'', WrongArgCount 2 ''wait'' 1 2 ''wait 1 2'',
            EndWithoutLoop 3 ''end'', UnknownCommand 4 ''foo'', UnclosedLoop] \<and>
   parse_commands (has_nanonis sample_externals) (conv_of sample_externals)
       ''looping\<newline>wait 1 2\<newline>end\<newline>foo\<newline>loop 3''
     = Inr (None, [InvalidLoop 1 ''looping'', WrongArgCount 2 ''wait'' 1 2 ''wait 1 2'',
                   EndWithoutLoop 3 ''end'', UnknownCommand 4 ''foo'', UnclosedLoop]) \<and>
   runScriptThread_run sample_externals (\<lambda>i. False)
       ''looping\<newline>wait 1 2\<newline>end\<newline>foo\<newline>loop 3'' (initial_state 0)
     = \<lparr>device = 0,
        emitted = [errorMsg [InvalidLoop 1 ''looping'', WrongArgCount 2 ''wait'' 1 2 ''wait 1 2'',
                             EndWithoutLoop 3 ''end'', UnknownCommand 4 ''foo'', UnclosedLoop],
                   scriptStatus ''Syntax errors''],
        invoked = [], raised = None\<rparr>"
proof -
  let ?s = "''looping\<newline>wait 1 2\<newline>end\<newline>foo\<newline>loop 3''"
  let ?errs = "[InvalidLoop 1 ''looping'', WrongArgCount 2 ''wait'' 1 2 ''wait 1 2'',
                EndWithoutLoop 3 ''end'', UnknownCommand 4 ''foo'', UnclosedLoop]"
  let ?st = "initial_state 0 :: (string, nat) thread_state"
  have c: "check_syntax ?s = Inr ?errs" by code_simp
  from validation_is_exhaustive_and_blocks
         [where script = ?s and conv = "conv_of sample_externals" and E = sample_externals
            and nan = "has_nanonis sample_externals"
            and cancelScript = "\<lambda>i. False" and st = ?st]
  have "\<exists>errors. check_syntax ?s = Inr errors \<and>
          (errors \<noteq> [] \<longrightarrow>
             parse_commands (has_nanonis sample_externals) (conv_of sample_externals)
                 ?s = Inr (None, errors) \<and>
             runScriptThread_run sample_externals (\<lambda>i. False) ?s ?st
               = ?st\<lparr>emitted := emitted ?st @
                        [errorMsg errors, scriptStatus ''Syntax errors'']\<rparr>)"
    by (elim exE conjE) (intro exI conjI, assumption+)
  then obtain errors where
    e: "check_syntax ?s = Inr errors" and
    b: "errors \<noteq> [] \<longrightarrow>
          parse_commands (has_nanonis sample_externals) (conv_of sample_externals)
              ?s = Inr (None, errors) \<and>
          runScriptThread_run sample_externals (\<lambda>i. False) ?s ?st
            = ?st\<lparr>emitted := emitted ?st @
                     [errorMsg errors, scriptStatus ''Syntax errors'']\<rparr>"
    by blast
  from c e have "errors = ?errs" by simp
  with b c show ?thesis by (simp add: initial_state_def)
qed

section \<open>The execution engine: logging, errors and cancellation\<close>

lemma execute_loop_cancelled:
  "\<forall>j\<ge>i. cancelScript j \<Longrightarrow> execute_loop E cancelScript i cs st = st"
  by (induction cs arbitrary: i) auto

lemma outcomes_length: "outcomes dev cs d = Some (rs, d') \<Longrightarrow> length rs = length cs"
  by (induction cs arbitrary: d rs) (auto split: prod.splits sum.splits option.splits)

lemma execute_loop_prefix:
  "\<forall>j<length pre. \<not> cancelScript (i + j) \<Longrightarrow>
   outcomes (dev_of E) pre (device st) = Some (rs, d') \<Longrightarrow>
   execute_loop E cancelScript i (pre @ post) st =
     execute_loop E cancelScript (i + length pre) post
       (st\<lparr>device := d', invoked := invoked st @ pre,
            emitted := emitted st @ concat (map2 (log_entries E) pre rs)\<rparr>)"
proof (induction pre arbitrary: i st rs)
  case Nil
  then show ?case by auto
next
  case (Cons entry pre)
  from Cons.prems(2) obtain r d1 rs' where
    inv: "invoke (dev_of E) entry (device st) = (Inr r, d1)" and
    out: "outcomes (dev_of E) pre d1 = Some (rs', d')" and
    rs: "rs = r # rs'"
    by (auto split: prod.splits sum.splits option.splits)
  obtain errorText response variables where r: "r = (errorText, response, variables)"
    by (cases r) auto
  let ?st2 = "st\<lparr>device := d1, invoked := invoked st @ [entry],
                   emitted := emitted st @ log_entries E entry r\<rparr>"
  have c0: "\<not> cancelScript i" using Cons.prems(1) by force
  have step: "execute_loop E cancelScript i ((entry # pre) @ post) st =
               execute_loop E cancelScript (Suc i) (pre @ post) ?st2"
    using c0 inv r by (simp add: log_entries_def request_status_def Let_def)
  have cs: "\<forall>j<length pre. \<not> cancelScript (Suc i + j)"
    using Cons.prems(1) by force
  have out': "outcomes (dev_of E) pre (device ?st2) = Some (rs', d')"
    using out by simp
  show ?case
    unfolding step using Cons.IH [OF cs out'] rs by simp
qed

lemma log_entries_shape:
  "log_entries E entry (errorText, response, variables) =
     logSignal ''Request''
       (cmd entry @ '' '' @ join '' '' (map (str_arg E) (arg_values entry)))
       (if errorText = [] then ''OK'' else errorText)
     # (if variables = [] then []
        else [logSignal ''Response''
                (''['' @ join '', '' (map (str_var E) variables) @ '']'') ''''])"
  by (simp add: log_entries_def request_status_def)

text \<open>
  C7. In a run that is not cancelled and in which every capability returns a result, every
  command of the sequence is invoked, whatever error texts the results carry, and the
  signals emitted are: the status \<^verbatim>\<open>Running\<close>, then for each command in order its
  \<open>log_entries\<close> (one Request entry whose status is \<^verbatim>\<open>OK\<close> for an empty error text and the
  error text otherwise, followed by one Response entry exactly when the variable list is
  not empty), then the status \<^verbatim>\<open>Finished\<close>.
\<close>

theorem failing_command_does_not_abort:
  assumes "\<forall>i. \<not> cancelScript i"
    and "outcomes (dev_of E) commands (device st) = Some (rs, d')"
    and "raised st = None"
  shows "runScriptThread_execute E cancelScript commands st =
           st\<lparr>device := d', invoked := invoked st @ commands,
                emitted := emitted st @ [scriptStatus ''Running'']
                           @ concat (map2 (log_entries E) commands rs)
                           @ [scriptStatus ''Finished'']\<rparr>"
proof -
  let ?st1 = "st\<lparr>emitted := emitted st @ [scriptStatus ''Running'']\<rparr>"
  have c: "\<forall>j<length commands. \<not> cancelScript (0 + j)" using assms(1) by simp
  have o: "outcomes (dev_of E) commands (device ?st1) = Some (rs, d')" using assms(2) by simp
  have "execute_loop E cancelScript 0 (commands @ []) ?st1 =
          execute_loop E cancelScript (0 + length commands) []
            (?st1\<lparr>device := d', invoked := invoked ?st1 @ commands,
                   emitted := emitted ?st1 @ concat (map2 (log_entries E) commands rs)\<rparr>)"
    by (rule execute_loop_prefix [OF c o])
  then show ?thesis
    using assms(3) by (simp add: runScriptThread_execute_def Let_def)
qed

theorem failing_command_does_not_abort_witness:
  "outcomes (dev_of sample_externals)
     [\<lparr>cmd = ''wait'', bound_func = SI wait, arg_values = [Converted ''1'']\<rparr>,
      \<lparr>cmd = ''bias.Get'', bound_func = Nanonis ''Bias_Get'', arg_values = []\<rparr>] 0
     = Some ([(''busy'', '''', []), ('''', '''', [1])], 2) \<and>
   runScriptThread_execute sample_externals (\<lambda>i. False)
     [\<lparr>cmd = ''wait'', bound_func = SI wait, arg_values = [Converted ''1'']\<rparr>,
      \<lparr>cmd = ''bias.Get'', bound_func = Nanonis ''Bias_Get'', arg_values = []\<rparr>]
     (initial_state 0)
     = \<lparr>device = 2,
        emitted = [scriptStatus ''Running'',
                   logSignal ''Request'' ''wait 1'' ''busy'',
                   logSignal ''Request'' ''bias.Get '' ''OK'',
                   logSignal ''Response'' ''[II]'' '''',
                   scriptStatus ''Finished''],
        invoked = [\<lparr>cmd = ''wait'', bound_func = SI wait, arg_values = [Converted ''1'']\<rparr>,
                   \<lparr>cmd = ''bias.Get'', bound_func = Nanonis ''Bias_Get'', arg_values = []\<rparr>],
        raised = None\<rparr>"
proof -
  let ?cs = "[\<lparr>cmd = ''wait'', bound_func = SI wait, arg_values = [Converted ''1'']\<rparr>,
              \<lparr>cmd = ''bias.Get'', bound_func = Nanonis ''Bias_Get'', arg_values = []\<rparr>]"
  let ?st = "initial_state 0 :: (string, nat) thread_state"
  have o: "outcomes (dev_of sample_externals) ?cs (device ?st)
             = Some ([(''busy'', '''', []), ('''', '''', [1])], 2)"
    by code_simp
  have c: "\<forall>i. \<not> (\<lambda>i::nat. False) i" by simp
  have r: "raised ?st = None" by (simp add: initial_state_def)
  have "runScriptThread_execute sample_externals (\<lambda>i. False) ?cs ?st =
          ?st\<lparr>device := 2, invoked := invoked ?st @ ?cs,
               emitted := emitted ?st @ [scriptStatus ''Running'']
                 @ concat (map2 (log_entries sample_externals) ?cs
                             [(''busy'', '''', []), ('''', '''', [1])])
                 @ [scriptStatus ''Finished'']\<rparr>"
    by (rule failing_command_does_not_abort [OF c o r])
  moreover have "device ?st = 0" by (simp add: initial_state_def)
  ultimately show ?thesis
    using o by (simp add: initial_state_def log_entries_def request_status_def
                          sample_externals_def)
qed

text \<open>
  The loop reads the flag anew before every command and skips the command when it reads set;
  it has no \<^verbatim>\<open>break\<close>. When the flag reads unset at the first \<open>k\<close> iterations and set at every
  later one, and the first \<open>k\<close> capabilities return results, exactly the first \<open>k\<close> commands
  are invoked, exactly their log entries are emitted after the status \<^verbatim>\<open>Running\<close>, and the
  last signal is the status \<^verbatim>\<open>Finished\<close>.
\<close>

lemma cancel_while_flag_stays_set:
  assumes "\<forall>i<k. \<not> cancelScript i"
    and "\<forall>i\<ge>k. cancelScript i"
    and "k \<le> length commands"
    and "outcomes (dev_of E) (take k commands) (device st) = Some (rs, d')"
    and "raised st = None"
  shows "runScriptThread_execute E cancelScript commands st =
           st\<lparr>device := d', invoked := invoked st @ take k commands,
                emitted := emitted st @ [scriptStatus ''Running'']
                           @ concat (map2 (log_entries E) (take k commands) rs)
                           @ [scriptStatus ''Finished'']\<rparr>"
proof -
  let ?st1 = "st\<lparr>emitted := emitted st @ [scriptStatus ''Running'']\<rparr>"
  let ?pre = "take k commands"
  let ?post = "drop k commands"
  have len: "length ?pre = k" using assms(3) by simp
  have c: "\<forall>j<length ?pre. \<not> cancelScript (0 + j)" using assms(1) len by simp
  have o: "outcomes (dev_of E) ?pre (device ?st1) = Some (rs, d')" using assms(4) by simp
  let ?st2 = "?st1\<lparr>device := d', invoked := invoked ?st1 @ ?pre,
                     emitted := emitted ?st1 @ concat (map2 (log_entries E) ?pre rs)\<rparr>"
  have "execute_loop E cancelScript 0 (?pre @ ?post) ?st1 =
          execute_loop E cancelScript (0 + length ?pre) ?post ?st2"
    by (rule execute_loop_prefix [OF c o])
  moreover have "execute_loop E cancelScript (0 + length ?pre) ?post ?st2 = ?st2"
    by (rule execute_loop_cancelled) (use assms(2) len in simp)
  ultimately have "execute_loop E cancelScript 0 commands ?st1 = ?st2" by simp
  then show ?thesis
    using assms(5) by (simp add: runScriptThread_execute_def Let_def)
qed

lemma cancel_while_flag_stays_set_instance:
  "outcomes (dev_of sample_externals)
     (take 1 [\<lparr>cmd = ''bias.Get'', bound_func = Nanonis ''Bias_Get'', arg_values = []\<rparr>,
              \<lparr>cmd = ''wait'', bound_func = SI wait, arg_values = [Converted ''1'']\<rparr>,
              \<lparr>cmd = ''wait'', bound_func = SI wait, arg_values = [Converted ''2'']\<rparr>]) 0
     = Some ([('''', '''', [0])], 1) \<and>
   runScriptThread_execute sample_externals (\<lambda>i. 1 \<le> i)
     [\<lparr>cmd = ''bias.Get'', bound_func = Nanonis ''Bias_Get'', arg_values = []\<rparr>,
      \<lparr>cmd = ''wait'', bound_func = SI wait, arg_values = [Converted ''1'']\<rparr>,
      \<lparr>cmd = ''wait'', bound_func = SI wait, arg_values = [Converted ''2'']\<rparr>]
     (initial_state 0)
     = \<lparr>device = 1,
        emitted = [scriptStatus ''Running'',
                   logSignal ''Request'' ''bias.Get '' ''OK'',
                   logSignal ''Response'' ''[I]'' '''',
                   scriptStatus ''Finished''],
        invoked = [\<lparr>cmd = ''bias.Get'', bound_func = Nanonis ''Bias_Get'', arg_values = []\<rparr>],
        raised = None\<rparr>"
proof -
  let ?cs = "[\<lparr>cmd = ''bias.Get'', bound_func = Nanonis ''Bias_Get'', arg_values = []\<rparr>,
              \<lparr>cmd = ''wait'', bound_func = SI wait, arg_values = [Converted ''1'']\<rparr>,
              \<lparr>cmd = ''wait'', bound_func = SI wait, arg_values = [Converted ''2'']\<rparr>]"
  let ?st = "initial_state 0 :: (string, nat) thread_state"
  have o: "outcomes (dev_of sample_externals) (take 1 ?cs) (device ?st)
             = Some ([('''', '''', [0])], 1)"
    by code_simp
  have c1: "\<forall>i<1. \<not> (\<lambda>i::nat. 1 \<le> i) i" by simp
  have c2: "\<forall>i\<ge>1. (\<lambda>i::nat. 1 \<le> i) i" by simp
  have l: "(1::nat) \<le> length ?cs" by simp
  have r: "raised ?st = None" by (simp add: initial_state_def)
  have "runScriptThread_execute sample_externals (\<lambda>i. 1 \<le> i) ?cs ?st =
          ?st\<lparr>device := 1, invoked := invoked ?st @ take 1 ?cs,
               emitted := emitted ?st @ [scriptStatus ''Running'']
                 @ concat (map2 (log_entries sample_externals) (take 1 ?cs)
                             [('''', '''', [0])])
                 @ [scriptStatus ''Finished'']\<rparr>"
    by (rule cancel_while_flag_stays_set [OF c1 c2 l o r])
  moreover have "device ?st = 0" by (simp add: initial_state_def)
  ultimately show ?thesis
    using o by (simp add: initial_state_def log_entries_def request_status_def
                          sample_externals_def)
qed

text \<open>
  C6. The claim: once the flag is set between command \<open>k\<close> and command \<open>k + 1\<close>, command
  \<open>k + 1\<close> and all later ones are never invoked. The loop of \<^verbatim>\<open>execute\<close> does not leave the
  iteration when it reads the flag set: it skips that command and reads the flag again at the
  next one, and \<^verbatim>\<open>runScript\<close> (the Run button) clears the flag without asking whether the
  thread is running, where \<^verbatim>\<open>stopScript\<close> asks. With three commands and the flag unset at
  the first read, set at the second (Stop after command 1) and unset again at the third (Run
  before command 3), the code invokes command 1 and command 3: the request for
  \<^verbatim>\<open>wait 2\<close> is logged after the cancellation, before the status \<^verbatim>\<open>Finished\<close>.
\<close>

theorem cancel_then_cleared_flag_resumes:
  "runScriptThread_execute sample_externals (\<lambda>i. i = 1)
     [\<lparr>cmd = ''bias.Get'', bound_func = Nanonis ''Bias_Get'', arg_values = []\<rparr>,
      \<lparr>cmd = ''wait'', bound_func = SI wait, arg_values = [Converted ''1'']\<rparr>,
      \<lparr>cmd = ''wait'', bound_func = SI wait, arg_values = [Converted ''2'']\<rparr>]
     (initial_state 0)
     = \<lparr>device = 2,
        emitted = [scriptStatus ''Running'',
                   logSignal ''Request'' ''bias.Get '' ''OK'',
                   logSignal ''Response'' ''[I]'' '''',
                   logSignal ''Request'' ''wait 2'' ''busy'',
                   scriptStatus ''Finished''],
        invoked = [\<lparr>cmd = ''bias.Get'', bound_func = Nanonis ''Bias_Get'', arg_values = []\<rparr>,
                   \<lparr>cmd = ''wait'', bound_func = SI wait, arg_values = [Converted ''2'']\<rparr>],
        raised = None\<rparr>"
  by code_simp

section \<open>Argument resolution\<close>






section \<open>Loop expansion and the length of the flat sequence\<close>



section \<open>\<^verbatim>\<open>ScriptingInterface.execute\<close> when no command runs\<close>

lemma si_execute_loop_append:
  "si_execute_loop dev (xs @ ys) d b =
     (case si_execute_loop dev xs d b of
        (Inl e, d') \<Rightarrow> (Inl e, d')
      | (Inr b', d') \<Rightarrow> si_execute_loop dev ys d' b')"
  by (induction xs arbitrary: d b) (auto split: prod.splits sum.splits)

text \<open>
  C10. \<^verbatim>\<open>ScriptingInterface.execute\<close> raises TypeError for a script with syntax errors
  (the loop iterates over \<^verbatim>\<open>None\<close>), raises UnboundLocalError, a NameError, for a clean
  script that expands to no command, and, when the commands run, returns the result of the
  last command only.
\<close>

theorem execute_raises_or_returns_last:
  "(check_syntax script = Inr errors \<and> errors \<noteq> []
      \<longrightarrow> ScriptingInterface_execute E script d = (Inl TypeError, d)) \<and>
   (parse_commands (has_nanonis E) (conv_of E) script = Inr (Some [], [])
      \<longrightarrow> ScriptingInterface_execute E script d = (Inl UnboundLocalError, d)) \<and>
   (parse_commands (has_nanonis E) (conv_of E) script = Inr (Some (cs @ [c]), []) \<and>
    si_execute_loop (dev_of E) cs d None = (Inr b, d1) \<and>
    invoke (dev_of E) c d1 = (Inr r, d2)
      \<longrightarrow> ScriptingInterface_execute E script d = (Inr r, d2))"
  by (auto simp: ScriptingInterface_execute_def parse_commands_def si_execute_loop_append
           split: sum.splits prod.splits option.splits)

theorem execute_raises_or_returns_last_witness:
  "check_syntax ''foo'' = Inr [UnknownCommand 1 ''foo''] \<and>
   ScriptingInterface_execute sample_externals ''foo'' 0 = (Inl TypeError, 0) \<and>
   parse_commands (has_nanonis sample_externals) (conv_of sample_externals)
       ''loop 0\<newline>wait 1\<newline>end'' = Inr (Some [], []) \<and>
   ScriptingInterface_execute sample_externals ''loop 0\<newline>wait 1\<newline>end'' 0
     = (Inl UnboundLocalError, 0) \<and>
   ScriptingInterface_execute sample_externals ''wait 1\<newline>bias.Get'' 0
     = (Inr ('''', '''', [1]), 2)"
proof -
  let ?w = "\<lparr>cmd = ''wait'', bound_func = SI wait, arg_values = [Converted ''1'']\<rparr>"
  let ?g = "\<lparr>cmd = ''bias.Get'', bound_func = Nanonis ''Bias_Get'',
             arg_values = ([] :: string argval list)\<rparr>"
  have a: "check_syntax ''foo'' = Inr [UnknownCommand 1 ''foo'']"
    by code_simp
  have b: "parse_commands (has_nanonis sample_externals) (conv_of sample_externals)
               ''loop 0\<newline>wait 1\<newline>end''
             = Inr (Some [], [])"
    by code_simp
  have c: "parse_commands (has_nanonis sample_externals) (conv_of sample_externals)
               ''wait 1\<newline>bias.Get''
             = Inr (Some ([?w] @ [?g]), [])"
    by code_simp
  have l: "si_execute_loop (dev_of sample_externals) [?w] 0 None
             = (Inr (Some (''busy'', '''', [])), 1)"
    by code_simp
  have i: "invoke (dev_of sample_externals) ?g 1 = (Inr ('''', '''', [1]), 2)"
    by code_simp
  note t = execute_raises_or_returns_last
  from a t [of "''foo''" "[UnknownCommand 1 ''foo'']" sample_externals 0]
  have 1: "ScriptingInterface_execute sample_externals ''foo'' 0 = (Inl TypeError, 0)"
    by simp
  from b t [of "''loop 0\<newline>wait 1\<newline>end''" _ sample_externals 0]
  have 2: "ScriptingInterface_execute sample_externals ''loop 0\<newline>wait 1\<newline>end'' 0
             = (Inl UnboundLocalError, 0)"
    by blast
  from c l i t [of "''wait 1\<newline>bias.Get''" _ sample_externals 0 "[?w]" ?g]
  have 3: "ScriptingInterface_execute sample_externals ''wait 1\<newline>bias.Get'' 0
             = (Inr ('''', '''', [1]), 2)"
    by blast
  from a b 1 2 3 show ?thesis by blast
qed

end
